theory Spec2Isabelle
  imports Complex_Main
begin

section \<open>Path utilities and endpoint keys\<close>

text \<open>
  A JavaScript string is modelled as the list of its code units, taken from HOL's
  \<^typ>\<open>char\<close> (code units below 256; the paths, prefixes and method names the
  extractors handle are written in ASCII). \<open>String.prototype.trim\<close> removes the
  ECMAScript WhiteSpace and LineTerminator code units from both ends; those below 256
  are TAB, LF, VT, FF, CR, SP and NBSP.
\<close>

definition is_ws :: "char \<Rightarrow> bool" where
  "is_ws c = (of_char c \<in> {9, 10, 11, 12, 13, 32, 160 :: nat})"

definition trim :: "string \<Rightarrow> string" where
  "trim s = rev (dropWhile is_ws (rev (dropWhile is_ws s)))"

definition startsWithSlash :: "string \<Rightarrow> bool" where
  "startsWithSlash s = (case s of [] \<Rightarrow> False | c # _ \<Rightarrow> c = CHR ''/'')"

text \<open>\<open>out.replace(/\/+/g, '/')\<close>: every maximal run of slashes becomes one slash.\<close>

fun collapseSlashes :: "string \<Rightarrow> string" where
  "collapseSlashes (c # d # cs) =
     (if c = CHR ''/'' \<and> d = CHR ''/'' then collapseSlashes (d # cs)
      else c # collapseSlashes (d # cs))"
| "collapseSlashes cs = cs"

text \<open>\<open>if (out.length > 1 && out.endsWith('/')) out = out.slice(0, -1)\<close>\<close>

definition stripTrailingSlash :: "string \<Rightarrow> string" where
  "stripTrailingSlash out =
     (if length out > 1 \<and> last out = CHR ''/'' then butlast out else out)"

definition normalizePath :: "string \<Rightarrow> string" where
  "normalizePath p =
     (if p = [] then ''/''
      else let out = trim p;
               out = (if \<not> startsWithSlash out then CHR ''/'' # out else out);
               out = collapseSlashes out
           in stripTrailingSlash out)"

text \<open>
  \<open>joinPaths(base, child)\<close>; \<open>base || '/'\<close> replaces the empty string by \<open>'/'\<close>.
\<close>

definition orSlash :: "string \<Rightarrow> string" where
  "orSlash s = (if s = [] then ''/'' else s)"

definition joinPaths :: "string \<Rightarrow> string \<Rightarrow> string" where
  "joinPaths base child =
     (let a = normalizePath (orSlash base);
          b = normalizePath (orSlash child)
      in if a = ''/'' then b
         else if b = ''/'' then a
         else normalizePath (a @ ''/'' @ b))"

text \<open>
  \<open>toUpperCase\<close> on ASCII: the letters a to z are moved to A to Z, every other
  ASCII code unit is kept.
\<close>

definition upperChar :: "char \<Rightarrow> char" where
  "upperChar c =
     (let n = (of_char c :: nat) in if 97 \<le> n \<and> n \<le> 122 then char_of (n - 32) else c)"

definition toUpperCase :: "string \<Rightarrow> string" where
  "toUpperCase s = map upperChar s"

definition HTTP_METHODS :: "string list" where
  "HTTP_METHODS = [''get'', ''post'', ''put'', ''patch'', ''delete'', ''options'', ''head'']"

definition toKey :: "string \<Rightarrow> string \<Rightarrow> string" where
  "toKey method pathStr = toUpperCase method @ '' '' @ normalizePath pathStr"

text \<open>A method name is valid when it is one of \<open>HTTP_METHODS\<close> up to letter case.\<close>

definition validMethod :: "string \<Rightarrow> bool" where
  "validMethod m = (toUpperCase m \<in> set (map toUpperCase HTTP_METHODS))"

text \<open>
  The shape the specification gives a normalized path: a leading slash, no repeated
  slashes, and no trailing slash except for the root path itself.
\<close>

fun noDoubleSlash :: "string \<Rightarrow> bool" where
  "noDoubleSlash (c # d # cs) = (\<not> (c = CHR ''/'' \<and> d = CHR ''/'') \<and> noDoubleSlash (d # cs))"
| "noDoubleSlash cs = True"

definition wellFormedPath :: "string \<Rightarrow> bool" where
  "wellFormedPath q = (startsWithSlash q \<and> noDoubleSlash q \<and> (last q = CHR ''/'' \<longrightarrow> q = ''/''))"

text \<open>
  \<open>s.split('/').filter(Boolean)\<close>, as in \<open>splitPath\<close>: the non-empty segments between the
  slashes of \<open>s\<close>, in order. \<open>segs cur s\<close> reads \<open>s\<close> with the segment begun so far in
  \<open>cur\<close>. \<open>joinSlash\<close> is \<open>join('/')\<close>.
\<close>

fun segs :: "string \<Rightarrow> string \<Rightarrow> string list" where
  "segs cur [] = (if cur = [] then [] else [cur])"
| "segs cur (c # s) =
     (if c = CHR ''/'' then (if cur = [] then segs [] s else cur # segs [] s)
      else segs (cur @ [c]) s)"

definition segments :: "string \<Rightarrow> string list" where
  "segments s = segs [] s"

fun joinSlash :: "string list \<Rightarrow> string" where
  "joinSlash [] = []"
| "joinSlash [x] = x"
| "joinSlash (x # y # ys) = x @ CHR ''/'' # joinSlash (y # ys)"

subsection \<open>Path normalization\<close>

lemma slash_not_ws: "\<not> is_ws CHR ''/''"
  by (simp add: is_ws_def)

lemma collapse_id: "noDoubleSlash s \<Longrightarrow> collapseSlashes s = s"
  by (induction s rule: collapseSlashes.induct) auto

lemma collapse_Nil: "(collapseSlashes s = []) = (s = [])"
  by (induction s rule: collapseSlashes.induct) auto

lemma collapse_hd: "s \<noteq> [] \<Longrightarrow> hd (collapseSlashes s) = hd s"
  by (induction s rule: collapseSlashes.induct) auto

lemma collapse_last: "last (collapseSlashes s) = last s"
  by (induction s rule: collapseSlashes.induct) (auto simp: collapse_Nil)

lemma collapse_length: "length (collapseSlashes s) \<le> length s"
  by (induction s rule: collapseSlashes.induct) auto

lemma noDouble_Cons:
  "noDoubleSlash (c # s) = ((s \<noteq> [] \<longrightarrow> \<not> (c = CHR ''/'' \<and> hd s = CHR ''/'')) \<and> noDoubleSlash s)"
  by (cases s) auto

lemma collapse_noDouble: "noDoubleSlash (collapseSlashes s)"
  by (induction s rule: collapseSlashes.induct) (auto simp: noDouble_Cons collapse_hd)

lemma noDouble_butlast: "noDoubleSlash s \<Longrightarrow> noDoubleSlash (butlast s)"
  by (induction s rule: noDoubleSlash.induct) (auto split: if_splits)

lemma noDouble_last2:
  "noDoubleSlash s \<Longrightarrow> length s > 1 \<Longrightarrow> last s = CHR ''/'' \<Longrightarrow> last (butlast s) \<noteq> CHR ''/''"
  by (induction s rule: noDoubleSlash.induct) (auto split: if_splits)

lemma dropWhile_hd_id: "xs \<noteq> [] \<Longrightarrow> \<not> P (hd xs) \<Longrightarrow> dropWhile P xs = xs"
  by (cases xs) auto

lemma dropWhile_hd_shorter: "xs \<noteq> [] \<Longrightarrow> P (hd xs) \<Longrightarrow> length (dropWhile P xs) < length xs"
  by (cases xs) (auto simp: length_dropWhile_le le_imp_less_Suc)

lemma trim_length: "length (trim s) \<le> length s"
  unfolding trim_def
  by (metis length_dropWhile_le length_rev le_trans)

lemma trim_id: "s \<noteq> [] \<Longrightarrow> \<not> is_ws (hd s) \<Longrightarrow> \<not> is_ws (last s) \<Longrightarrow> trim s = s"
proof -
  assume a: "s \<noteq> []" "\<not> is_ws (hd s)" "\<not> is_ws (last s)"
  have 1: "dropWhile is_ws s = s" using a by (simp add: dropWhile_hd_id)
  have 2: "dropWhile is_ws (rev s) = rev s" using a by (simp add: dropWhile_hd_id hd_rev)
  show ?thesis by (simp add: trim_def 1 2)
qed

lemma trim_slash_start:
  assumes "startsWithSlash s"
  shows "startsWithSlash (trim s)"
proof -
  from assms obtain r where s: "s = CHR ''/'' # r"
    by (auto simp: startsWithSlash_def split: list.splits)
  have "dropWhile is_ws (rev r @ ''/'') = (if \<forall>c\<in>set (rev r). is_ws c then ''/'' else dropWhile is_ws (rev r) @ ''/'')"
    by (simp add: dropWhile_append slash_not_ws)
  then show ?thesis
    by (auto simp: s trim_def slash_not_ws startsWithSlash_def split: list.splits if_splits)
qed

lemma trim_shorter:
  assumes "startsWithSlash s" "is_ws (last s)"
  shows "length (trim s) < length s"
proof -
  have ne: "s \<noteq> []" using assms(1) by (auto simp: startsWithSlash_def)
  have "length (dropWhile is_ws (rev s)) < length (rev s)"
    using assms(2) ne by (intro dropWhile_hd_shorter) (simp_all add: hd_rev)
  moreover have "dropWhile is_ws s = s"
    using assms(1) by (auto simp: startsWithSlash_def slash_not_ws split: list.splits)
  ultimately show ?thesis
    by (simp add: trim_def)
qed

lemma strip_props:
  assumes "startsWithSlash s" "noDoubleSlash s"
  shows "wellFormedPath (stripTrailingSlash s)"
proof (cases "length s > 1 \<and> last s = CHR ''/''")
  case True
  then have "last (butlast s) \<noteq> CHR ''/''" using assms(2) by (simp add: noDouble_last2)
  moreover have "startsWithSlash (butlast s)"
    using assms(1) True by (cases s) (auto simp: startsWithSlash_def split: list.splits)
  ultimately show ?thesis using True assms(2)
    by (simp add: wellFormedPath_def stripTrailingSlash_def noDouble_butlast)
next
  case False
  then have "last s = CHR ''/'' \<longrightarrow> s = ''/''"
    using assms(1) by (cases s) (auto simp: startsWithSlash_def)
  then show ?thesis using False assms
    by (auto simp: wellFormedPath_def stripTrailingSlash_def)
qed

lemma collapse_starts: "startsWithSlash (collapseSlashes s) = startsWithSlash s"
  using collapse_hd [of s] collapse_Nil [of s]
  by (cases s; cases "collapseSlashes s") (auto simp: startsWithSlash_def)

lemma normalizePath_wellFormed: "wellFormedPath (normalizePath p)"
proof (cases "p = []")
  case True
  then show ?thesis by (simp add: normalizePath_def wellFormedPath_def startsWithSlash_def)
next
  case False
  define out where "out = (if \<not> startsWithSlash (trim p) then CHR ''/'' # trim p else trim p)"
  have "startsWithSlash out" by (auto simp: out_def startsWithSlash_def)
  then have "wellFormedPath (stripTrailingSlash (collapseSlashes out))"
    by (intro strip_props) (simp_all add: collapse_starts collapse_noDouble)
  then show ?thesis using False by (simp add: normalizePath_def out_def Let_def)
qed

lemma normalizePath_fixed:
  assumes "wellFormedPath q" "\<not> is_ws (last q)"
  shows "normalizePath q = q"
proof -
  have ne: "q \<noteq> []" and hd: "hd q = CHR ''/''"
    using assms(1) by (auto simp: wellFormedPath_def startsWithSlash_def split: list.splits)
  have "trim q = q" using ne hd assms(2) by (simp add: trim_id slash_not_ws)
  moreover have "collapseSlashes q = q" using assms(1) by (simp add: wellFormedPath_def collapse_id)
  moreover have "stripTrailingSlash q = q"
    using assms(1) by (auto simp: wellFormedPath_def stripTrailingSlash_def)
  ultimately show ?thesis using ne assms(1)
    by (simp add: normalizePath_def wellFormedPath_def)
qed

lemma strip_length: "length (stripTrailingSlash s) \<le> length s"
  by (simp add: stripTrailingSlash_def)

lemma normalizePath_shrinks:
  assumes "startsWithSlash q" "is_ws (last q)"
  shows "length (normalizePath q) < length q"
proof -
  have ne: "q \<noteq> []" using assms(1) by (auto simp: startsWithSlash_def)
  have "normalizePath q = stripTrailingSlash (collapseSlashes (trim q))"
    using ne trim_slash_start [OF assms(1)] by (simp add: normalizePath_def)
  moreover have "length (stripTrailingSlash (collapseSlashes (trim q))) \<le> length (trim q)"
    using strip_length collapse_length le_trans by blast
  ultimately show ?thesis using trim_shorter [OF assms] by simp
qed

lemma joinPaths_wellFormed: "wellFormedPath (joinPaths base child)"
  by (simp add: joinPaths_def Let_def normalizePath_wellFormed)

lemma segs_collapse: "segs cur (collapseSlashes s) = segs cur s"
  by (induction s arbitrary: cur rule: collapseSlashes.induct) auto

lemma segs_snoc_slash: "segs cur (s @ ''/'') = segs cur s"
  by (induction s arbitrary: cur) auto

lemma segs_strip: "segs cur (stripTrailingSlash s) = segs cur s"
proof (cases "length s > 1 \<and> last s = CHR ''/''")
  case True
  then have "s \<noteq> []" by auto
  then have "butlast s @ ''/'' = s" using True append_butlast_last_id [of s] by simp
  then have "segs cur s = segs cur (butlast s)" using segs_snoc_slash [of cur "butlast s"] by simp
  then show ?thesis using True by (simp add: stripTrailingSlash_def)
next
  case False
  then show ?thesis by (auto simp: stripTrailingSlash_def)
qed

lemma segments_normalizePath: "segments (normalizePath p) = segments (trim p)"
proof (cases "p = []")
  case True
  then show ?thesis by (simp add: normalizePath_def segments_def trim_def)
next
  case False
  have "segs [] (if \<not> startsWithSlash (trim p) then CHR ''/'' # trim p else trim p) = segs [] (trim p)"
    by simp
  then show ?thesis using False
    by (simp add: normalizePath_def segments_def segs_strip segs_collapse Let_def del: segs.simps)
qed

lemma joinSlash_Cons: "rest \<noteq> [] \<Longrightarrow> joinSlash (x # rest) = x @ CHR ''/'' # joinSlash rest"
  by (cases rest) auto

lemma joinSlash_Nil: "joinSlash xs = [] \<Longrightarrow> xs = [] \<or> xs = [[]]"
  by (induction xs rule: joinSlash.induct) auto

lemma segs_nonempty: "x \<in> set (segs cur s) \<Longrightarrow> x \<noteq> []"
  by (induction s arbitrary: cur) (auto split: if_splits)

lemma joinSlash_segs:
  "noDoubleSlash s \<Longrightarrow> (s \<noteq> [] \<longrightarrow> last s \<noteq> CHR ''/'') \<Longrightarrow> (cur = [] \<longrightarrow> \<not> startsWithSlash s)
   \<Longrightarrow> joinSlash (segs cur s) = cur @ s"
proof (induction s arbitrary: cur)
  case Nil
  then show ?case by simp
next
  case (Cons c s)
  show ?case
  proof (cases "c = CHR ''/''")
    case True
    then have cur: "cur \<noteq> []" using Cons.prems(3) by (auto simp: startsWithSlash_def)
    have s: "s \<noteq> []" using Cons.prems(2) True by auto
    have ns: "\<not> startsWithSlash s" using Cons.prems(1) True s by (cases s) (auto simp: startsWithSlash_def)
    have nd: "noDoubleSlash s" using Cons.prems(1) by (simp add: noDouble_Cons)
    have l: "s \<noteq> [] \<longrightarrow> last s \<noteq> CHR ''/''" using Cons.prems(2) s by simp
    have ih: "joinSlash (segs [] s) = s" using Cons.IH [OF nd l, of "[]"] ns by simp
    then have "segs [] s \<noteq> []" using s by auto
    then show ?thesis using True cur ih by (simp add: joinSlash_Cons)
  next
    case False
    have nd: "noDoubleSlash s" using Cons.prems(1) by (simp add: noDouble_Cons)
    have l: "s \<noteq> [] \<longrightarrow> last s \<noteq> CHR ''/''" using Cons.prems(2) by auto
    show ?thesis using False Cons.IH [OF nd l, of "cur @ [c]"] by simp
  qed
qed

lemma wellFormed_canonical:
  assumes "wellFormedPath q"
  shows "q = CHR ''/'' # joinSlash (segments q)"
proof -
  from assms obtain r where q: "q = CHR ''/'' # r"
    by (auto simp: wellFormedPath_def startsWithSlash_def split: list.splits)
  have wf: "wellFormedPath (CHR ''/'' # r)" using assms unfolding q .
  have nd: "noDoubleSlash r" using wf by (simp add: wellFormedPath_def noDouble_Cons)
  have l: "r \<noteq> [] \<longrightarrow> last r \<noteq> CHR ''/''" using wf by (cases r) (auto simp: wellFormedPath_def)
  have ns: "\<not> startsWithSlash r" using wf by (cases r) (auto simp: wellFormedPath_def startsWithSlash_def)
  have "joinSlash (segs [] r) = r" using joinSlash_segs [OF nd l, of "[]"] ns by simp
  then show ?thesis by (simp add: q segments_def)
qed

lemma normalizePath_canonical: "normalizePath p = CHR ''/'' # joinSlash (segments (trim p))"
  using wellFormed_canonical [OF normalizePath_wellFormed, of p] by (simp add: segments_normalizePath)

text \<open>
  C7. Normalizing twice is not normalizing once: \<open>normalizePath\<close> trims white space
  before it strips the trailing slash, so \<open>'/a /'\<close> becomes \<open>'/a '\<close>, which a second
  pass turns into \<open>'/a'\<close>. An endpoint declared with the path \<open>'/a / /'\<close> is given the
  path \<open>'/a '\<close> and the key \<open>GET /a\<close>. For every string, normalizing twice equals
  normalizing once exactly when the normalized path does not end in a white-space
  character. The rest of the property holds for every string: the normalized path is a
  slash followed by the non-empty segments of the trimmed input, joined by single
  slashes; every run of slashes has become one slash and there is no trailing slash,
  except that the path without segments is \<open>'/'\<close>.
\<close>

theorem normalizePath_second_pass:
  "normalizePath ''/a /'' = ''/a ''
   \<and> normalizePath (normalizePath ''/a /'') = ''/a''
   \<and> normalizePath (joinPaths '''' ''/a / /'') = ''/a ''
   \<and> toKey ''GET'' ''/a '' = ''GET /a''
   \<and> (normalizePath (normalizePath p) = normalizePath p) = (\<not> is_ws (last (normalizePath p)))
   \<and> normalizePath p = CHR ''/'' # joinSlash (segments (trim p))"
proof -
  have wf: "wellFormedPath (normalizePath p)" by (rule normalizePath_wellFormed)
  have idem: "(normalizePath (normalizePath p) = normalizePath p) = (\<not> is_ws (last (normalizePath p)))"
  proof
    assume eq: "normalizePath (normalizePath p) = normalizePath p"
    show "\<not> is_ws (last (normalizePath p))"
    proof
      assume "is_ws (last (normalizePath p))"
      then have "length (normalizePath (normalizePath p)) < length (normalizePath p)"
        using wf by (intro normalizePath_shrinks) (simp_all add: wellFormedPath_def)
      then show False using eq by simp
    qed
  next
    assume "\<not> is_ws (last (normalizePath p))"
    then show "normalizePath (normalizePath p) = normalizePath p"
      using wf by (simp add: normalizePath_fixed)
  qed
  have a: "normalizePath ''/a /'' = ''/a ''" by code_simp
  have b: "normalizePath (normalizePath ''/a /'') = ''/a''" by code_simp
  have c: "normalizePath (joinPaths '''' ''/a / /'') = ''/a ''" by code_simp
  have d: "toKey ''GET'' ''/a '' = ''GET /a''" by code_simp
  show ?thesis using a b c d idem normalizePath_canonical [of p] by blast
qed

subsection \<open>Endpoint keys\<close>

lemma upper_HTTP_METHODS:
  "map toUpperCase HTTP_METHODS =
     [''GET'', ''POST'', ''PUT'', ''PATCH'', ''DELETE'', ''OPTIONS'', ''HEAD'']"
  by code_simp

lemma validMethod_no_space: "validMethod m \<Longrightarrow> CHR '' '' \<notin> set (toUpperCase m)"
  unfolding validMethod_def upper_HTTP_METHODS by auto

lemma split_at_first_space:
  "CHR '' '' \<notin> set u \<Longrightarrow> CHR '' '' \<notin> set v \<Longrightarrow>
   u @ CHR '' '' # x = v @ CHR '' '' # y \<Longrightarrow> u = v \<and> x = y"
proof (induction u arbitrary: v)
  case Nil
  then show ?case by (cases v) auto
next
  case (Cons c u)
  then show ?case by (cases v) auto
qed

text \<open>
  C6. The key is a function of its arguments, and for valid HTTP methods two keys are
  equal exactly when the methods agree up to letter case and the paths agree after
  normalization: the keys differ whenever either component differs.
\<close>

theorem toKey_collision_free:
  assumes "validMethod m1" and "validMethod m2"
  shows "(toKey m1 p1 = toKey m2 p2) =
         (toUpperCase m1 = toUpperCase m2 \<and> normalizePath p1 = normalizePath p2)"
proof
  assume "toKey m1 p1 = toKey m2 p2"
  then have "toUpperCase m1 @ CHR '' '' # normalizePath p1 =
             toUpperCase m2 @ CHR '' '' # normalizePath p2"
    by (simp add: toKey_def)
  then show "toUpperCase m1 = toUpperCase m2 \<and> normalizePath p1 = normalizePath p2"
    using assms by (intro split_at_first_space) (simp_all add: validMethod_no_space)
next
  assume "toUpperCase m1 = toUpperCase m2 \<and> normalizePath p1 = normalizePath p2"
  then show "toKey m1 p1 = toKey m2 p2" by (simp add: toKey_def)
qed

theorem toKey_collision_free_witness:
  "validMethod ''get'' \<and> validMethod ''Post'' \<and> toKey ''get'' ''/a/'' \<noteq> toKey ''Post'' ''a''
   \<and> toKey ''get'' ''/a/'' = toKey ''GET'' ''a''"
proof -
  have v: "validMethod ''get''" "validMethod ''Post''" "validMethod ''GET''" by code_simp+
  have u: "toUpperCase ''get'' \<noteq> toUpperCase ''Post''" "toUpperCase ''get'' = toUpperCase ''GET''"
    by code_simp+
  have n: "normalizePath ''/a/'' = normalizePath ''a''" by code_simp
  from toKey_collision_free [OF v(1) v(2), of "''/a/''" "''a''"]
       toKey_collision_free [OF v(1) v(3), of "''/a/''" "''a''"] v u n
  show ?thesis by simp
qed

subsection \<open>Joining proper paths\<close>

text \<open>
  A proper path is a normalized path other than the root that does not end in white
  space. On proper paths \<open>joinPaths\<close> is concatenation.
\<close>

definition properPath :: "string \<Rightarrow> bool" where
  "properPath p = (wellFormedPath p \<and> p \<noteq> ''/'' \<and> \<not> is_ws (last p))"

lemma collapse_append_dslash:
  "s \<noteq> [] \<Longrightarrow> noDoubleSlash s \<Longrightarrow> last s \<noteq> CHR ''/'' \<Longrightarrow> noDoubleSlash (CHR ''/'' # t) \<Longrightarrow>
   collapseSlashes (s @ CHR ''/'' # CHR ''/'' # t) = s @ CHR ''/'' # t"
proof (induction s)
  case Nil
  then show ?case by simp
next
  case (Cons c s)
  show ?case
  proof (cases s)
    case Nil
    then show ?thesis using Cons.prems by (simp add: collapse_id)
  next
    case (Cons d s')
    then show ?thesis using Cons.prems Cons.IH by (auto split: if_splits)
  qed
qed

lemma properPath_facts:
  assumes "properPath a"
  shows "a \<noteq> []" "hd a = CHR ''/''" "noDoubleSlash a" "last a \<noteq> CHR ''/''" "\<not> is_ws (last a)"
    "normalizePath a = a" "a \<noteq> ''/''" "startsWithSlash a"
proof -
  from assms have w: "wellFormedPath a" "a \<noteq> ''/''" "\<not> is_ws (last a)"
    by (simp_all add: properPath_def)
  from w(1) have s: "startsWithSlash a" "noDoubleSlash a" "last a = CHR ''/'' \<longrightarrow> a = ''/''"
    by (simp_all add: wellFormedPath_def)
  show "startsWithSlash a" by fact
  show "a \<noteq> []" using s(1) by (cases a) (simp_all add: startsWithSlash_def)
  show "hd a = CHR ''/''" using s(1) by (cases a) (simp_all add: startsWithSlash_def)
  show "noDoubleSlash a" by fact
  show "last a \<noteq> CHR ''/''" using s(3) w(2) by blast
  show "\<not> is_ws (last a)" by fact
  show "normalizePath a = a" using w(1) w(3) by (rule normalizePath_fixed)
  show "a \<noteq> ''/''" by fact
qed

lemma normalizePath_join_proper:
  assumes "properPath a" "properPath b"
  shows "normalizePath (a @ CHR ''/'' # b) = a @ b"
proof -
  note fa = properPath_facts [OF assms(1)] and fb = properPath_facts [OF assms(2)]
  obtain b' where b: "b = CHR ''/'' # b'"
    using fb(1) fb(2) by (cases b) simp_all
  let ?p = "a @ CHR ''/'' # b"
  have ne: "?p \<noteq> []" by simp
  have hdp: "hd ?p = CHR ''/''" using fa(1) fa(2) by simp
  have lastp: "last ?p = last b" using fb(1) by simp
  have t: "trim ?p = ?p"
  proof (rule trim_id)
    show "?p \<noteq> []" by simp
    show "\<not> is_ws (hd ?p)" unfolding hdp by (rule slash_not_ws)
    show "\<not> is_ws (last ?p)" unfolding lastp by (rule fb(5))
  qed
  have st: "startsWithSlash ?p" using fa(1) fa(2) by (cases a) (simp_all add: startsWithSlash_def)
  have nd: "noDoubleSlash (CHR ''/'' # b')" using fb(3) unfolding b .
  have c: "collapseSlashes ?p = a @ b"
    unfolding b by (rule collapse_append_dslash [OF fa(1) fa(3) fa(4) nd])
  have lastab: "last (a @ b) = last b" using fb(1) by simp
  have s: "stripTrailingSlash (a @ b) = a @ b"
    unfolding stripTrailingSlash_def lastab using fb(4) by simp
  show ?thesis
    unfolding normalizePath_def Let_def t using ne st c s by simp
qed

lemma joinPaths_append:
  assumes "properPath a" "properPath b"
  shows "joinPaths a b = a @ b"
proof -
  note fa = properPath_facts [OF assms(1)] and fb = properPath_facts [OF assms(2)]
  have "orSlash a = a" "orSlash b = b" using fa(1) fb(1) by (simp_all add: orSlash_def)
  then have "joinPaths a b = normalizePath (a @ ''/'' @ b)"
    unfolding joinPaths_def Let_def using fa(6) fb(6) fa(7) fb(7) by simp
  then show ?thesis using normalizePath_join_proper [OF assms] by simp
qed

lemma normalizePath_root: "normalizePath ''/'' = ''/''"
  by code_simp

lemma joinPaths_empty_right:
  assumes "properPath a"
  shows "joinPaths a [] = a"
proof -
  note fa = properPath_facts [OF assms(1)]
  have "orSlash a = a" "orSlash [] = ''/''" using fa(1) by (simp_all add: orSlash_def)
  then show ?thesis
    unfolding joinPaths_def Let_def using fa(6) fa(7) normalizePath_root by simp
qed

lemma properPath_append:
  assumes "properPath a" "properPath b"
  shows "properPath (a @ b)"
proof -
  note fa = properPath_facts [OF assms(1)] and fb = properPath_facts [OF assms(2)]
  have "wellFormedPath (a @ b)"
    using joinPaths_wellFormed [of a b] joinPaths_append [OF assms] by simp
  moreover have "last (a @ b) = last b" using fb(1) by simp
  moreover have "a @ b \<noteq> ''/''" using fa(1) fb(1) by (cases a; cases b) simp_all
  ultimately show ?thesis using fb(5) by (simp add: properPath_def)
qed

section \<open>JavaScript containers\<close>

text \<open>
  A JavaScript \<open>Map\<close> and the own properties of an object literal keep their keys in
  insertion order; setting a key that is present replaces the value in place, setting a
  new key appends it. Both are modelled as association lists with \<open>mapSet\<close> and
  \<open>map_of\<close>. (For an object literal JavaScript enumerates keys that are canonical array indices
  first, and an assignment to the key \<open>__proto__\<close> adds no property; the property names
  here are taken to be neither.) A \<open>Set\<close> is a duplicate-free list in insertion order. A string or
  \<open>null\<close> is truthy when it is a non-empty string.
\<close>

fun mapSet :: "'k \<Rightarrow> 'v \<Rightarrow> ('k \<times> 'v) list \<Rightarrow> ('k \<times> 'v) list" where
  "mapSet k v [] = [(k, v)]"
| "mapSet k v ((k', v') # kvs) = (if k' = k then (k', v) # kvs else (k', v') # mapSet k v kvs)"

definition truthy :: "string option \<Rightarrow> bool" where
  "truthy s = (case s of None \<Rightarrow> False | Some v \<Rightarrow> v \<noteq> [])"

text \<open>
  A thrown exception is a value: a function that may throw returns \<open>jsError + 'a\<close>.
  \<open>collectEndpoints\<close> appends the results of a loop that stops at the first exception.
\<close>

datatype jsError = TypeError

fun collectEndpoints :: "(jsError + 'a list) list \<Rightarrow> jsError + 'a list" where
  "collectEndpoints [] = Inr []"
| "collectEndpoints (Inl e # _) = Inl e"
| "collectEndpoints (Inr xs # rest) =
     (case collectEndpoints rest of Inl e \<Rightarrow> Inl e | Inr ys \<Rightarrow> Inr (xs @ ys))"

lemma map_of_mapSet: "map_of (mapSet k v m) = (map_of m)(k \<mapsto> v)"
  by (induction m) (auto simp: fun_eq_iff)

lemma mapSet_subset: "set (mapSet k v kvs) \<subseteq> insert (k, v) (set kvs)"
  by (induction kvs) (auto split: if_splits)

lemma mapSet_keys: "distinct (map fst m) \<Longrightarrow> distinct (map fst (mapSet k v m))"
proof (induction m)
  case Nil
  then show ?case by simp
next
  case (Cons kv m)
  have "fst ` set (mapSet k v m) \<subseteq> insert k (fst ` set m)"
    using mapSet_subset [of k v m] by auto
  then show ?case using Cons by (cases kv) auto
qed



section \<open>Schema-builder resolution (resolveZodSchema)\<close>

text \<open>
  The syntax tree is the parser's: a node is modelled by its \<open>type\<close> and the
  fields the resolver reads. A numeric literal carries a rational (every finite double
  is one). \<open>OtherNode\<close> and \<open>OtherMember\<close> stand for every node type the
  resolver does not distinguish. An absent node (\<open>null\<close>, \<open>undefined\<close>) is
  \<open>None\<close>.
\<close>

datatype jsvalue = VString string | VNumber rat | VBool bool

datatype node =
    Identifier string
  | StringLiteral string
  | NumericLiteral rat
  | BooleanLiteral bool
  | TemplateLiteral "string option list"
  | CallExpression node "node list"
  | MemberExpression node node
  | ObjectExpression "objectMember list"
  | OtherNode
and objectMember =
    ObjectProperty node node
  | OtherMember

datatype zschema =
  ZSchema (ztype: string) (zproperties: "(string \<times> zschema) list option")
    (zrequired: "string list option") (zitems: "zschema option")
    (zexample: "jsvalue option") (zoptional: bool)

definition zPrim :: "string \<Rightarrow> zschema" where
  "zPrim t = ZSchema t None None None None False"

fun getPropertyName :: "node \<Rightarrow> string option" where
  "getPropertyName (Identifier n) = Some n"
| "getPropertyName (StringLiteral v) = Some v"
| "getPropertyName _ = None"

fun findProperty :: "objectMember list \<Rightarrow> string \<Rightarrow> node option" where
  "findProperty [] keyName = None"
| "findProperty (OtherMember # props) keyName = findProperty props keyName"
| "findProperty (ObjectProperty key val # props) keyName =
     (if getPropertyName key = Some keyName then Some val else findProperty props keyName)"

fun getObjectProperty :: "node option \<Rightarrow> string \<Rightarrow> node option" where
  "getObjectProperty (Some (ObjectExpression props)) keyName = findProperty props keyName"
| "getObjectProperty _ keyName = None"

fun propertyName :: "node \<Rightarrow> string option" where
  "propertyName (Identifier n) = Some n"
| "propertyName _ = None"

fun withExample :: "jsvalue \<Rightarrow> zschema \<Rightarrow> zschema" where
  "withExample v (ZSchema t ps rq it ex opt) = ZSchema t ps rq it (Some v) opt"

fun withOptional :: "zschema \<Rightarrow> zschema" where
  "withOptional (ZSchema t ps rq it ex opt) = ZSchema t ps rq it ex True"

fun setExample :: "node option \<Rightarrow> zschema \<Rightarrow> zschema" where
  "setExample (Some (StringLiteral v)) baseSchema = withExample (VString v) baseSchema"
| "setExample (Some (NumericLiteral v)) baseSchema = withExample (VNumber v) baseSchema"
| "setExample (Some (BooleanLiteral v)) baseSchema = withExample (VBool v) baseSchema"
| "setExample _ baseSchema = baseSchema"

function resolveZodSchema :: "node option \<Rightarrow> (string \<rightharpoonup> node) \<Rightarrow> nat \<Rightarrow> zschema" where
  "resolveZodSchema None schemaDefs depth = zPrim ''string''"
| "resolveZodSchema (Some node) schemaDefs depth =
     (if depth > 10 then zPrim ''string''
      else case node of
        Identifier name \<Rightarrow>
          (case schemaDefs name of
             Some init \<Rightarrow> resolveZodSchema (Some init) schemaDefs (depth + 1)
           | None \<Rightarrow> zPrim ''object'')
      | CallExpression callee arguments \<Rightarrow>
          (case callee of
             MemberExpression object property \<Rightarrow>
               (let methodName = propertyName property in
                if methodName = Some ''string'' then zPrim ''string''
                else if methodName = Some ''number'' then zPrim ''number''
                else if methodName = Some ''boolean'' then zPrim ''boolean''
                else if methodName = Some ''object'' then
                  (case arguments of
                     ObjectExpression props # _ \<Rightarrow>
                       (let (properties, required) =
                          foldl (\<lambda>(properties, required) prop.
                            case prop of
                              ObjectProperty key val \<Rightarrow>
                                (case getPropertyName key of
                                   None \<Rightarrow> (properties, required)
                                 | Some name \<Rightarrow>
                                     if name = [] then (properties, required)
                                     else let propSchema = resolveZodSchema (Some val) schemaDefs (depth + 1)
                                          in (mapSet name propSchema properties,
                                              if \<not> zoptional propSchema then required @ [name] else required))
                            | OtherMember \<Rightarrow> (properties, required))
                            ([], []) props
                        in ZSchema ''object'' (Some properties)
                             (if required \<noteq> [] then Some required else None) None None False)
                   | _ \<Rightarrow> zPrim ''object'')
                else if methodName = Some ''array'' then
                  ZSchema ''array'' None None
                    (Some (resolveZodSchema (case arguments of [] \<Rightarrow> None | arg # _ \<Rightarrow> Some arg) schemaDefs (depth + 1)))
                    None False
                else if methodName = Some ''openapi'' then
                  (let baseSchema = resolveZodSchema (Some object) schemaDefs (depth + 1);
                       arg = (case arguments of [] \<Rightarrow> None | arg # _ \<Rightarrow> Some arg);
                       example = getObjectProperty arg ''example''
                   in setExample example baseSchema)
                else if methodName = Some ''optional'' then
                  (let base = resolveZodSchema (Some object) schemaDefs (depth + 1)
                   in withOptional base)
                else resolveZodSchema (Some object) schemaDefs (depth + 1))
           | _ \<Rightarrow> zPrim ''string'')
      | MemberExpression object property \<Rightarrow>
          (let name = propertyName property in
           if name = Some ''string'' then zPrim ''string''
           else if name = Some ''number'' then zPrim ''number''
           else if name = Some ''boolean'' then zPrim ''boolean''
           else resolveZodSchema (Some object) schemaDefs (depth + 1))
      | _ \<Rightarrow> zPrim ''string'')"
  by pat_completeness auto
termination
  by (relation "measure (\<lambda>(n, defs, d). 11 - d)") auto

declare resolveZodSchema.simps [simp del]

fun zheight :: "zschema \<Rightarrow> nat" where
  "zheight (ZSchema t ps rq it ex opt) =
     Suc (max (case ps of None \<Rightarrow> 0 | Some kvs \<Rightarrow> foldr max (map (\<lambda>kv. zheight (snd kv)) kvs) 0)
              (case it of None \<Rightarrow> 0 | Some i \<Rightarrow> zheight i))"

lemma resolveZodSchema_over_cap:
  "depth > 10 \<Longrightarrow> resolveZodSchema node schemaDefs depth = zPrim ''string''"
  by (cases node) (simp_all add: resolveZodSchema.simps)

lemma resolveZodSchema_unresolved:
  "schemaDefs name = None \<Longrightarrow> depth \<le> 10 \<Longrightarrow>
   resolveZodSchema (Some (Identifier name)) schemaDefs depth = zPrim ''object''"
  by (simp add: resolveZodSchema.simps)

text \<open>
  A chain of method calls \<open>base.m1().m2()\<close> and so on, outermost call first in the
  list. A modifier is a method name that \<open>resolveZodSchema\<close> does not single out
  (\<open>min\<close>, \<open>email\<close>, \<open>nullable\<close> and the like): the resolver passes it over and goes on
  with the object it is called on.
\<close>

definition modifier :: "string \<Rightarrow> bool" where
  "modifier m = (m \<notin> set [''string'', ''number'', ''boolean'', ''object'', ''array'', ''openapi'', ''optional''])"

fun chainOf :: "string list \<Rightarrow> node \<Rightarrow> node" where
  "chainOf [] base = base"
| "chainOf (m # ms) base = CallExpression (MemberExpression (chainOf ms base) (Identifier m)) []"

lemma resolveZodSchema_bound:
  "depth \<le> 10 \<Longrightarrow> schemaDefs name = Some init \<Longrightarrow>
   resolveZodSchema (Some (Identifier name)) schemaDefs depth = resolveZodSchema (Some init) schemaDefs (depth + 1)"
  by (simp add: resolveZodSchema.simps)

lemma resolveZodSchema_modifier:
  "depth \<le> 10 \<Longrightarrow> modifier m \<Longrightarrow>
   resolveZodSchema (Some (CallExpression (MemberExpression object (Identifier m)) arguments)) schemaDefs depth =
     resolveZodSchema (Some object) schemaDefs (depth + 1)"
  by (simp add: resolveZodSchema.simps
      modifier_def)

lemma resolveZodSchema_primitive:
  "depth \<le> 10 \<Longrightarrow>
   resolveZodSchema (Some (CallExpression (MemberExpression object (Identifier ''number'')) arguments)) schemaDefs depth =
     zPrim ''number''"
  by (simp add: resolveZodSchema.simps)

lemma resolveZodSchema_chain:
  "schemaDefs name = None \<Longrightarrow> list_all modifier ms \<Longrightarrow>
   resolveZodSchema (Some (chainOf ms (Identifier name))) schemaDefs depth =
     (if depth + length ms \<le> 10 then zPrim ''object'' else zPrim ''string'')"
proof (induction ms arbitrary: depth)
  case Nil
  then show ?case by (simp add: resolveZodSchema_unresolved resolveZodSchema_over_cap)
next
  case (Cons m ms)
  show ?case
  proof (cases "depth \<le> 10")
    case True
    have "resolveZodSchema (Some (chainOf (m # ms) (Identifier name))) schemaDefs depth =
          resolveZodSchema (Some (chainOf ms (Identifier name))) schemaDefs (depth + 1)"
      using resolveZodSchema_modifier [OF True, of m] Cons.prems(2) by simp
    then show ?thesis using Cons.IH [of "depth + 1"] Cons.prems by simp
  next
    case False
    then show ?thesis by (simp add: resolveZodSchema_over_cap)
  qed
qed

lemma zheight_zPrim [simp]: "zheight (zPrim t) = 1"
  by (simp add: zPrim_def)

lemma zheight_withExample [simp]: "zheight (withExample v s) = zheight s"
  by (cases s) simp

lemma zheight_withOptional [simp]: "zheight (withOptional s) = zheight s"
  by (cases s) simp

lemma zheight_setExample [simp]: "zheight (setExample e s) = zheight s"
  by (induction e s rule: setExample.induct) simp_all





section \<open>DTO schema resolution (schemaFromTypeNode, buildSchemaForDto)\<close>

text \<open>
  The declared type of a class property is a TypeScript type node. \<open>TSTypeReference\<close>
  carries the type name and \<open>typeParameters?.params\<close>; \<open>TSQualifiedName\<close> stands for
  every type name that is not an identifier. A DTO definition, as \<open>collectDtoSchemas\<close>
  stores it, is the class name and its properties with what the decorators say about
  them (\<open>optional\<close>, \<open>example\<close>, \<open>overrideType\<close>).

  \<open>buildSchemaForDto\<close> creates the schema object of a DTO, registers it in \<open>memo\<close> and
  only then fills in its properties, in place; a later lookup of the same name returns
  that very object and not a copy. The objects created there are therefore kept in a
  store, which is the memo itself: it maps a DTO name to the present contents of its
  object, and \<open>SDtoRef name\<close> is the reference to that object. Every other schema node is
  an object literal held by nobody else and is a plain value: \<open>SNode type example\<close>,
  \<open>SArray items\<close>, \<open>SObject properties\<close>. The resolvers return the memo they leave behind
  next to their result.
\<close>

datatype entityName = TypeIdentifier string | TSQualifiedName

datatype tsType =
    TSStringKeyword
  | TSNumberKeyword
  | TSBooleanKeyword
  | TSArrayType tsType
  | TSTypeReference entityName "tsType list option"
  | TSTypeLiteral "typeElement list"
  | TSOtherType
and typeElement =
    TSPropertySignature node "tsType option"
  | TSOtherElement

record dtoProp =
  propName :: string
  propOptional :: bool
  propTypeNode :: "tsType option"
  propExample :: "jsvalue option"
  propOverrideType :: "string option"

record dtoDefinition =
  dtoDefName :: string
  dtoProps :: "dtoProp list"

datatype schema =
    SNode string "jsvalue option"
  | SArray schema
  | SObject "(string \<times> schema) list"
  | SDtoRef string

record dtoObject =
  objProperties :: "(string \<times> schema) list"
  objRequired :: "string list option"

type_synonym dtoMap = "(string \<times> dtoDefinition) list"
type_synonym memo = "(string \<times> dtoObject) list"

definition metaFallback :: "dtoProp option \<Rightarrow> schema" where
  "metaFallback meta =
     (case meta of
        None \<Rightarrow> SNode ''object'' None
      | Some prop \<Rightarrow>
          if truthy (propOverrideType prop) then SNode (the (propOverrideType prop)) (propExample prop)
          else SNode ''object'' (propExample prop))"

definition metaExample :: "dtoProp option \<Rightarrow> jsvalue option" where
  "metaExample meta = (case meta of None \<Rightarrow> None | Some prop \<Rightarrow> propExample prop)"

definition setProperty :: "string \<Rightarrow> string \<Rightarrow> schema \<Rightarrow> memo \<Rightarrow> memo" where
  "setProperty dto k v memo =
     (case map_of memo dto of
        None \<Rightarrow> memo
      | Some obj \<Rightarrow> mapSet dto (obj\<lparr>objProperties := mapSet k v (objProperties obj)\<rparr>) memo)"

definition setRequired :: "string \<Rightarrow> string list \<Rightarrow> memo \<Rightarrow> memo" where
  "setRequired dto rq memo =
     (case map_of memo dto of
        None \<Rightarrow> memo
      | Some obj \<Rightarrow> mapSet dto (obj\<lparr>objRequired := Some rq\<rparr>) memo)"

definition propsWeight :: "dtoProp list \<Rightarrow> nat" where
  "propsWeight ps = sum_list (map (\<lambda>p. Suc (size_option size (propTypeNode p))) ps)"

definition dtoWeight :: "dtoMap \<Rightarrow> nat" where
  "dtoWeight dm = sum_list (map (\<lambda>kv. propsWeight (dtoProps (snd kv))) dm)"

fun singleParam :: "tsType list option \<Rightarrow> tsType option" where
  "singleParam (Some [param]) = Some param"
| "singleParam _ = None"

text \<open>
  \<open>name === 'Array' && typeNode.typeParameters && typeNode.typeParameters.params.length === 1\<close>:
  the element type of \<open>Array<T>\<close>.
\<close>

definition arrayParam :: "string \<Rightarrow> tsType list option \<Rightarrow> tsType option" where
  "arrayParam name tps = (if name = ''Array'' then singleParam tps else None)"

lemma singleParam_size:
  "arrayParam name ps = Some param \<Longrightarrow> size param < Suc (size_option (size_list size) ps)"
  by (induction ps rule: singleParam.induct) (simp_all add: arrayParam_def split: if_splits)

lemma dtoWeight_lookup: "map_of dm n = Some dto \<Longrightarrow> propsWeight (dtoProps dto) \<le> dtoWeight dm"
  by (induction dm) (auto simp: dtoWeight_def split: if_splits)

function schemaFromTypeNode ::
    "tsType option \<Rightarrow> dtoMap \<Rightarrow> nat \<Rightarrow> memo \<Rightarrow> dtoProp option \<Rightarrow> schema \<times> memo"
  and schemaFromMembers ::
    "typeElement list \<Rightarrow> dtoMap \<Rightarrow> nat \<Rightarrow> memo \<Rightarrow> (string \<times> schema) list \<Rightarrow> (string \<times> schema) list \<times> memo"
  and buildSchemaForDto :: "string \<Rightarrow> dtoMap \<Rightarrow> nat \<Rightarrow> memo \<Rightarrow> schema \<times> memo"
  and buildProps ::
    "dtoProp list \<Rightarrow> string \<Rightarrow> dtoMap \<Rightarrow> nat \<Rightarrow> memo \<Rightarrow> string list \<Rightarrow> memo \<times> string list"
where
  "schemaFromTypeNode typeNode dtoMap depth memo meta =
     (case typeNode of
        None \<Rightarrow> (metaFallback meta, memo)
      | Some TSStringKeyword \<Rightarrow> (SNode ''string'' (metaExample meta), memo)
      | Some TSNumberKeyword \<Rightarrow> (SNode ''number'' (metaExample meta), memo)
      | Some TSBooleanKeyword \<Rightarrow> (SNode ''boolean'' (metaExample meta), memo)
      | Some (TSArrayType elementType) \<Rightarrow>
          (let (items, memo') = schemaFromTypeNode (Some elementType) dtoMap (depth + 1) memo None
           in (SArray items, memo'))
      | Some (TSTypeReference typeName typeParameters) \<Rightarrow>
          (case typeName of
             TypeIdentifier name \<Rightarrow>
               (case arrayParam name typeParameters of
                  Some param \<Rightarrow>
                    (let (items, memo') = schemaFromTypeNode (Some param) dtoMap (depth + 1) memo None
                     in (SArray items, memo'))
                | None \<Rightarrow>
                    if map_of dtoMap name \<noteq> None \<and> depth < 2
                    then buildSchemaForDto name dtoMap (depth + 1) memo
                    else (metaFallback meta, memo))
           | TSQualifiedName \<Rightarrow> (metaFallback meta, memo))
      | Some (TSTypeLiteral members) \<Rightarrow>
          (let (properties, memo') = schemaFromMembers members dtoMap depth memo []
           in (SObject properties, memo'))
      | Some TSOtherType \<Rightarrow> (metaFallback meta, memo))"
| "schemaFromMembers [] dtoMap depth memo properties = (properties, memo)"
| "schemaFromMembers (member # members) dtoMap depth memo properties =
     (case member of
        TSOtherElement \<Rightarrow> schemaFromMembers members dtoMap depth memo properties
      | TSPropertySignature key typeAnnotation \<Rightarrow>
          (case getPropertyName key of
             None \<Rightarrow> schemaFromMembers members dtoMap depth memo properties
           | Some name \<Rightarrow>
               if name = [] then schemaFromMembers members dtoMap depth memo properties
               else
                 (let (propSchema, memo') = schemaFromTypeNode typeAnnotation dtoMap (depth + 1) memo None
                  in schemaFromMembers members dtoMap depth memo' (mapSet name propSchema properties))))"
| "buildSchemaForDto dtoName dtoMap depth memo =
     (if map_of memo dtoName \<noteq> None then (SDtoRef dtoName, memo)
      else case map_of dtoMap dtoName of
        None \<Rightarrow> (SNode ''object'' None, memo)
      | Some dto \<Rightarrow>
          (let memo1 = mapSet dtoName \<lparr>objProperties = [], objRequired = None\<rparr> memo;
               (memo2, required) = buildProps (dtoProps dto) dtoName dtoMap depth memo1 []
           in (SDtoRef dtoName, if required \<noteq> [] then setRequired dtoName required memo2 else memo2)))"
| "buildProps [] dtoName dtoMap depth memo required = (memo, required)"
| "buildProps (prop # props) dtoName dtoMap depth memo required =
     (let (propSchema, memo') = schemaFromTypeNode (propTypeNode prop) dtoMap (depth + 1) memo (Some prop)
      in buildProps props dtoName dtoMap depth
           (setProperty dtoName (propName prop) propSchema memo')
           (if \<not> propOptional prop then required @ [propName prop] else required))"
  by pat_completeness auto
termination
  apply (relation "inv_image (less_than <*lex*> less_than)
     (\<lambda>x. case x of
        Inl (Inl (t, dm, d, m, meta)) \<Rightarrow> (3 - d, size_option size t)
      | Inl (Inr (ms, dm, d, m, acc)) \<Rightarrow> (3 - d, size_list size ms)
      | Inr (Inl (n, dm, d, m)) \<Rightarrow> (3 - d, Suc (dtoWeight dm))
      | Inr (Inr (ps, n, dm, d, m, rq)) \<Rightarrow> (3 - d, propsWeight ps))")
  apply (auto simp: propsWeight_def le_imp_less_Suc dest: dtoWeight_lookup singleParam_size)
  done

declare schemaFromTypeNode.simps [simp del] buildSchemaForDto.simps [simp del]

fun pureSchema :: "schema \<Rightarrow> bool" where
  "pureSchema (SNode t e) = True"
| "pureSchema (SArray s) = pureSchema s"
| "pureSchema (SObject props) = (\<forall>kv\<in>set props. pureSchema (snd kv))"
| "pureSchema (SDtoRef n) = False"



lemma pure_metaFallback [simp]: "pureSchema (metaFallback meta)"
  by (simp add: metaFallback_def split: option.splits)

lemma sfT_None: "schemaFromTypeNode None dm d m meta = (metaFallback meta, m)"
  by (simp add: schemaFromTypeNode.simps)

lemma sfT_keyword:
  "schemaFromTypeNode (Some TSStringKeyword) dm d m meta = (SNode ''string'' (metaExample meta), m)"
  "schemaFromTypeNode (Some TSNumberKeyword) dm d m meta = (SNode ''number'' (metaExample meta), m)"
  "schemaFromTypeNode (Some TSBooleanKeyword) dm d m meta = (SNode ''boolean'' (metaExample meta), m)"
  "schemaFromTypeNode (Some TSOtherType) dm d m meta = (metaFallback meta, m)"
  "schemaFromTypeNode (Some (TSTypeReference TSQualifiedName tps)) dm d m meta = (metaFallback meta, m)"
  by (simp_all add: schemaFromTypeNode.simps)

lemma sfT_Array:
  "schemaFromTypeNode (Some (TSArrayType e)) dm d m meta =
     (SArray (fst (schemaFromTypeNode (Some e) dm (d + 1) m None)),
      snd (schemaFromTypeNode (Some e) dm (d + 1) m None))"
  by (simp add: schemaFromTypeNode.simps [of "Some (TSArrayType e)"] split: prod.splits)

lemma sfT_Literal:
  "schemaFromTypeNode (Some (TSTypeLiteral ms)) dm d m meta =
     (SObject (fst (schemaFromMembers ms dm d m [])), snd (schemaFromMembers ms dm d m []))"
  by (simp add: schemaFromTypeNode.simps [of "Some (TSTypeLiteral ms)"] split: prod.splits)

lemma sfT_Ref_array:
  "arrayParam name tps = Some p \<Longrightarrow>
   schemaFromTypeNode (Some (TSTypeReference (TypeIdentifier name) tps)) dm d m meta =
     (SArray (fst (schemaFromTypeNode (Some p) dm (d + 1) m None)),
      snd (schemaFromTypeNode (Some p) dm (d + 1) m None))"
  by (simp add: schemaFromTypeNode.simps [of "Some (TSTypeReference (TypeIdentifier name) tps)"]
      split: prod.splits)

lemma sfT_Ref_dto:
  "arrayParam name tps = None \<Longrightarrow> map_of dm name \<noteq> None \<Longrightarrow> d < 2 \<Longrightarrow>
   schemaFromTypeNode (Some (TSTypeReference (TypeIdentifier name) tps)) dm d m meta =
     buildSchemaForDto name dm (d + 1) m"
  by (simp add: schemaFromTypeNode.simps [of "Some (TSTypeReference (TypeIdentifier name) tps)"])

lemma sfT_Ref_fallback:
  "arrayParam name tps = None \<Longrightarrow> map_of dm name = None \<or> d \<ge> 2 \<Longrightarrow>
   schemaFromTypeNode (Some (TSTypeReference (TypeIdentifier name) tps)) dm d m meta =
     (metaFallback meta, m)"
  by (auto simp add: schemaFromTypeNode.simps [of "Some (TSTypeReference (TypeIdentifier name) tps)"])

lemma sfM_step:
  "schemaFromMembers (TSOtherElement # ms) dm d m acc = schemaFromMembers ms dm d m acc"
  "getPropertyName key = None \<or> getPropertyName key = Some [] \<Longrightarrow>
   schemaFromMembers (TSPropertySignature key ta # ms) dm d m acc = schemaFromMembers ms dm d m acc"
  "getPropertyName key = Some name \<Longrightarrow> name \<noteq> [] \<Longrightarrow>
   schemaFromMembers (TSPropertySignature key ta # ms) dm d m acc =
     schemaFromMembers ms dm d (snd (schemaFromTypeNode ta dm (d + 1) m None))
       (mapSet name (fst (schemaFromTypeNode ta dm (d + 1) m None)) acc)"
  by (auto simp: schemaFromMembers.simps(2) split: prod.splits)

declare schemaFromMembers.simps(2) [simp del] buildProps.simps(2) [simp del]

lemma deep_pure_aux:
  "depth \<ge> 2 \<Longrightarrow> 
     snd (schemaFromTypeNode typeNode dtoMap depth memo meta) = memo \<and>
     pureSchema (fst (schemaFromTypeNode typeNode dtoMap depth memo meta))"
  "depth \<ge> 1 \<Longrightarrow> \<forall>kv\<in>set properties. pureSchema (snd kv) \<Longrightarrow>
     snd (schemaFromMembers members dtoMap depth memo properties) = memo \<and>
     (\<forall>kv\<in>set (fst (schemaFromMembers members dtoMap depth memo properties)). pureSchema (snd kv))"
  "buildSchemaForDto dtoName dtoMap depth memo = buildSchemaForDto dtoName dtoMap depth memo"
  "buildProps props dtoName dtoMap depth memo required = buildProps props dtoName dtoMap depth memo required"
proof (induction typeNode dtoMap depth memo meta and members dtoMap depth memo properties
    and dtoName dtoMap depth memo and props dtoName dtoMap depth memo required
    rule: schemaFromTypeNode_schemaFromMembers_buildSchemaForDto_buildProps.induct)
  case (1 typeNode dtoMap depth memo meta)
  note d = "1.prems"(1)
  show ?case
  proof (cases typeNode)
    case None
    then show ?thesis by (simp add: sfT_None)
  next
    case (Some t)
    show ?thesis
    proof (cases t)
      case (TSArrayType e)
      from "1.IH"(1) [OF Some TSArrayType] d show ?thesis
        by (simp add: Some TSArrayType sfT_Array)
    next
      case (TSTypeReference tn tps)
      show ?thesis
      proof (cases tn)
        case (TypeIdentifier name)
        show ?thesis
        proof (cases "arrayParam name tps")
          case None
          then show ?thesis using d
            by (simp add: Some TSTypeReference TypeIdentifier sfT_Ref_fallback)
        next
          case (Some p)
          from "1.IH"(3) [OF \<open>typeNode = Some t\<close> TSTypeReference TypeIdentifier Some] d
          show ?thesis
            by (simp add: \<open>typeNode = Some t\<close> TSTypeReference TypeIdentifier sfT_Ref_array [OF Some])
        qed
      next
        case TSQualifiedName
        then show ?thesis by (simp add: Some TSTypeReference sfT_keyword)
      qed
    next
      case (TSTypeLiteral ms)
      from "1.IH"(4) [OF Some TSTypeLiteral] d show ?thesis
        by (simp add: Some TSTypeLiteral sfT_Literal)
    qed (simp_all add: Some sfT_keyword)
  qed
next
  case (2 dtoMap depth memo properties)
  then show ?case by simp
next
  case (3 member members dtoMap depth memo properties)
  note d = "3.prems"(1) and acc = "3.prems"(2)
  show ?case
  proof (cases member)
    case TSOtherElement
    from "3.IH"(5) [OF TSOtherElement d acc] show ?thesis by (simp add: TSOtherElement sfM_step(1))
  next
    case (TSPropertySignature key ta)
    show ?thesis
    proof (cases "getPropertyName key")
      case None
      from "3.IH"(1) [OF TSPropertySignature None d acc] show ?thesis
        unfolding TSPropertySignature using sfM_step(2) [of key] None by simp
    next
      case (Some name)
      show ?thesis
      proof (cases "name = []")
        case True
        from "3.IH"(2) [OF TSPropertySignature Some True d acc] show ?thesis
          unfolding TSPropertySignature using sfM_step(2) [of key] Some True by simp
      next
        case False
        let ?r = "schemaFromTypeNode ta dtoMap (depth + 1) memo None"
        from "3.IH"(3) [OF TSPropertySignature Some False] d
        have r: "snd ?r = memo" "pureSchema (fst ?r)" by simp_all
        have acc': "\<forall>kv\<in>set (mapSet name (fst ?r) properties). pureSchema (snd kv)"
          using acc r(2) mapSet_subset [of name "fst ?r" properties] by auto
        have "snd (schemaFromMembers members dtoMap depth (snd ?r) (mapSet name (fst ?r) properties)) = snd ?r
          \<and> (\<forall>kv\<in>set (fst (schemaFromMembers members dtoMap depth (snd ?r)
                  (mapSet name (fst ?r) properties))). pureSchema (snd kv))"
          using "3.IH"(4) [of key ta name ?r "fst ?r" "snd ?r"] TSPropertySignature Some False d acc'
          by simp
        then show ?thesis
          unfolding TSPropertySignature sfM_step(3) [OF Some False] using r(1) by simp
      qed
    qed
  qed
qed simp_all




lemma bP_step:
  "buildProps (p # ps) n dm d m rq =
     buildProps ps n dm d
       (setProperty n (propName p) (fst (schemaFromTypeNode (propTypeNode p) dm (Suc d) m (Some p)))
          (snd (schemaFromTypeNode (propTypeNode p) dm (Suc d) m (Some p))))
       (if \<not> propOptional p then rq @ [propName p] else rq)"
  by (simp add: buildProps.simps(2) split: prod.splits)


lemma build_hit: "map_of m n \<noteq> None \<Longrightarrow> buildSchemaForDto n dm d m = (SDtoRef n, m)"
  by (simp add: buildSchemaForDto.simps)

lemma build_absent:
  "map_of m n = None \<Longrightarrow> map_of dm n = None \<Longrightarrow> buildSchemaForDto n dm d m = (SNode ''object'' None, m)"
  by (simp add: buildSchemaForDto.simps)

lemma build_miss:
  "map_of m n = None \<Longrightarrow> map_of dm n = Some dto \<Longrightarrow>
   buildSchemaForDto n dm d m =
     (SDtoRef n,
      let r = buildProps (dtoProps dto) n dm d (mapSet n \<lparr>objProperties = [], objRequired = None\<rparr> m) []
      in if snd r \<noteq> [] then setRequired n (snd r) (fst r) else fst r)"
  by (simp add: buildSchemaForDto.simps Let_def split: prod.splits)




definition goodSchema :: "memo \<Rightarrow> schema \<Rightarrow> bool" where
  "goodSchema m s = (pureSchema s \<or> (\<exists>x. s = SDtoRef x \<and> map_of m x \<noteq> None))"

definition extends :: "memo \<Rightarrow> memo \<Rightarrow> bool" where
  "extends m m' = (\<forall>x. map_of m x \<noteq> None \<longrightarrow> map_of m' x = map_of m x)"


lemma extends_refl [simp]: "extends m m"
  by (simp add: extends_def)


lemma goodSchema_pure [simp]: "pureSchema s \<Longrightarrow> goodSchema m s"
  by (simp add: goodSchema_def)


















text \<open>
  \<open>buildSchemaForDto\<close> registers a name in the memo only after it has found the name in
  the DTO map, so the memo never holds a name that the DTO map lacks.
\<close>

definition memoWithin :: "dtoMap \<Rightarrow> memo \<Rightarrow> bool" where
  "memoWithin dm m = (set (map fst m) \<subseteq> set (map fst dm))"

lemma memoWithin_Nil [simp]: "memoWithin dm []"
  by (simp add: memoWithin_def)

lemma memoWithin_absent: "memoWithin dm m \<Longrightarrow> map_of dm n = None \<Longrightarrow> map_of m n = None"
  by (auto simp: memoWithin_def map_of_eq_None_iff)

lemma mapSet_keys_subset: "set (map fst (mapSet k v m)) \<subseteq> insert k (set (map fst m))"
  using mapSet_subset [of k v m] by auto

lemma memoWithin_mapSet: "memoWithin dm m \<Longrightarrow> map_of dm n \<noteq> None \<Longrightarrow> memoWithin dm (mapSet n obj m)"
proof -
  assume w: "memoWithin dm m" and n: "map_of dm n \<noteq> None"
  have "n \<in> set (map fst dm)" using n by (metis map_of_eq_None_iff set_map)
  then show ?thesis using w mapSet_keys_subset [of n obj m] unfolding memoWithin_def by blast
qed

lemma memoWithin_setProperty: "memoWithin dm m \<Longrightarrow> memoWithin dm (setProperty n k v m)"
proof (cases "map_of m n")
  case None
  assume "memoWithin dm m"
  then show ?thesis using None by (simp add: setProperty_def)
next
  case (Some obj)
  assume w: "memoWithin dm m"
  have "n \<in> set (map fst m)" using Some by (metis map_of_eq_None_iff option.distinct(1) set_map)
  then have "map_of dm n \<noteq> None" using w by (auto simp: memoWithin_def map_of_eq_None_iff)
  then show ?thesis using w Some by (simp add: setProperty_def memoWithin_mapSet)
qed

lemma memoWithin_setRequired: "memoWithin dm m \<Longrightarrow> memoWithin dm (setRequired n rq m)"
proof (cases "map_of m n")
  case None
  assume "memoWithin dm m"
  then show ?thesis using None by (simp add: setRequired_def)
next
  case (Some obj)
  assume w: "memoWithin dm m"
  have "n \<in> set (map fst m)" using Some by (metis map_of_eq_None_iff option.distinct(1) set_map)
  then have "map_of dm n \<noteq> None" using w by (auto simp: memoWithin_def map_of_eq_None_iff)
  then show ?thesis using w Some by (simp add: setRequired_def memoWithin_mapSet)
qed

lemma memoWithin_kept:
  "memoWithin dtoMap memo \<Longrightarrow> memoWithin dtoMap (snd (schemaFromTypeNode typeNode dtoMap depth memo meta))"
  "memoWithin dtoMap memo \<Longrightarrow> memoWithin dtoMap (snd (schemaFromMembers members dtoMap depth memo properties))"
  "memoWithin dtoMap memo \<Longrightarrow> memoWithin dtoMap (snd (buildSchemaForDto dtoName dtoMap depth memo))"
  "memoWithin dtoMap memo \<Longrightarrow> memoWithin dtoMap (fst (buildProps props dtoName dtoMap depth memo required))"
proof (induction typeNode dtoMap depth memo meta and members dtoMap depth memo properties
    and dtoName dtoMap depth memo and props dtoName dtoMap depth memo required
    rule: schemaFromTypeNode_schemaFromMembers_buildSchemaForDto_buildProps.induct)
  case (1 typeNode dtoMap depth memo meta)
  note w = "1.prems"(1)
  show ?case
  proof (cases typeNode)
    case None
    then show ?thesis using w by (simp add: sfT_None)
  next
    case (Some t)
    show ?thesis
    proof (cases t)
      case (TSArrayType e)
      from "1.IH"(1) [OF Some TSArrayType w] show ?thesis
        by (simp add: Some TSArrayType sfT_Array)
    next
      case (TSTypeReference tn tps)
      show ?thesis
      proof (cases tn)
        case (TypeIdentifier name)
        show ?thesis
        proof (cases "arrayParam name tps")
          case None
          show ?thesis
          proof (cases "map_of dtoMap name \<noteq> None \<and> depth < 2")
            case True
            from "1.IH"(2) [OF Some TSTypeReference TypeIdentifier None True w] True
            show ?thesis
              by (simp add: Some TSTypeReference TypeIdentifier sfT_Ref_dto [OF None])
          next
            case False
            then have "map_of dtoMap name = None \<or> depth \<ge> 2" by auto
            then show ?thesis using w
              by (simp add: Some TSTypeReference TypeIdentifier sfT_Ref_fallback [OF None])
          qed
        next
          case (Some p)
          from "1.IH"(3) [OF \<open>typeNode = Some t\<close> TSTypeReference TypeIdentifier Some w]
          show ?thesis
            by (simp add: \<open>typeNode = Some t\<close> TSTypeReference TypeIdentifier sfT_Ref_array [OF Some])
        qed
      next
        case TSQualifiedName
        then show ?thesis using w by (simp add: Some TSTypeReference sfT_keyword)
      qed
    next
      case (TSTypeLiteral ms)
      from "1.IH"(4) [OF Some TSTypeLiteral w] show ?thesis
        by (simp add: Some TSTypeLiteral sfT_Literal)
    qed (simp_all add: Some sfT_keyword w)
  qed
next
  case (2 dtoMap depth memo properties)
  then show ?case by simp
next
  case (3 member members dtoMap depth memo properties)
  note w = "3.prems"(1)
  show ?case
  proof (cases member)
    case TSOtherElement
    from "3.IH"(5) [OF TSOtherElement w] show ?thesis by (simp add: TSOtherElement sfM_step(1))
  next
    case (TSPropertySignature key ta)
    show ?thesis
    proof (cases "getPropertyName key")
      case None
      from "3.IH"(1) [OF TSPropertySignature None w] show ?thesis
        unfolding TSPropertySignature using sfM_step(2) [of key] None by simp
    next
      case (Some name)
      show ?thesis
      proof (cases "name = []")
        case True
        from "3.IH"(2) [OF TSPropertySignature Some True w] show ?thesis
          unfolding TSPropertySignature using sfM_step(2) [of key] Some True by simp
      next
        case False
        let ?r = "schemaFromTypeNode ta dtoMap (depth + 1) memo None"
        from "3.IH"(3) [OF TSPropertySignature Some False w]
        have r: "memoWithin dtoMap (snd ?r)" .
        have "memoWithin dtoMap (snd (schemaFromMembers members dtoMap depth (snd ?r) (mapSet name (fst ?r) properties)))"
          using "3.IH"(4) [of key ta name ?r "fst ?r" "snd ?r"] TSPropertySignature Some False r
          by simp
        then show ?thesis
          unfolding TSPropertySignature sfM_step(3) [OF Some False] by simp
      qed
    qed
  qed
next
  case (4 dtoName dtoMap depth memo)
  note w = "4.prems"(1)
  show ?case
  proof (cases "map_of memo dtoName")
    case (Some obj)
    then show ?thesis using w by (simp add: build_hit)
  next
    case None
    show ?thesis
    proof (cases "map_of dtoMap dtoName")
      case None
      then show ?thesis using w \<open>map_of memo dtoName = None\<close> by (simp add: build_absent)
    next
      case (Some dto)
      let ?m1 = "mapSet dtoName \<lparr>objProperties = [], objRequired = None\<rparr> memo"
      have "memoWithin dtoMap ?m1" using w Some by (simp add: memoWithin_mapSet)
      from "4.IH" [OF _ Some refl this] None
      have "memoWithin dtoMap (fst (buildProps (dtoProps dto) dtoName dtoMap depth ?m1 []))" by simp
      then show ?thesis
        unfolding build_miss [OF None Some] Let_def by (simp add: memoWithin_setRequired)
    qed
  qed
next
  case (5 dtoName dtoMap depth memo required)
  then show ?case by simp
next
  case (6 p ps dtoName dtoMap depth memo required)
  note w = "6.prems"(1)
  let ?r = "schemaFromTypeNode (propTypeNode p) dtoMap (Suc depth) memo (Some p)"
  have r: "memoWithin dtoMap (snd ?r)" using "6.IH"(1) [OF w] by simp
  have "memoWithin dtoMap (setProperty dtoName (propName p) (fst ?r) (snd ?r))"
    using r by (rule memoWithin_setProperty)
  from "6.IH"(2) [of ?r "fst ?r" "snd ?r", OF _ _ this]
  show ?case unfolding bP_step by simp
qed

lemma build_unknown:
  "memoWithin dm m \<Longrightarrow> map_of dm n = None \<Longrightarrow> buildSchemaForDto n dm d m = (SNode ''object'' None, m)"
  using memoWithin_absent build_absent by blast

section \<open>Router graph resolution (extractHonoEndpoints)\<close>

text \<open>
  \<open>parseHonoFile\<close> reads one file and returns its path, the routers declared in it
  (variable name and base path, empty when none is given), the routes, the mounts
  \<open>parent.route(prefix, child)\<close>, the exports and the imports with their resolved source
  file. The resolver below is a function of these parse results; a file that cannot
  be parsed is skipped (\<open>None\<close>). The \<open>while (queue.length)\<close> loop is \<open>bfsLoop\<close>, whose
  value is \<open>None\<close> when the loop never ends.
\<close>

record honoParams =
  paramBody :: "zschema option"
  paramQuery :: "(string \<times> bool) list option"

record rawEndpoint =
  routerVar :: string
  rawMethod :: string
  rawPath :: string
  rawDescription :: string
  rawParameters :: "honoParams option"

record mount =
  parentVar :: string
  childIdent :: string
  mountPrefix :: string

record importBinding =
  sourceFile :: string
  importName :: string
  isDefault :: bool

record fileExports =
  exportDefault :: "string option"
  exportNamed :: "(string \<times> string) list"

record fileData =
  dataFilePath :: string
  dataRouters :: "(string \<times> string) list"
  dataEndpoints :: "rawEndpoint list"
  dataMounts :: "mount list"
  dataExports :: fileExports
  dataImports :: "(string \<times> importBinding) list"

record routerInfo =
  routerFilePath :: string
  routerVarName :: string
  routerBasePath :: string

record edge =
  childId :: string
  edgePrefix :: string

record honoEndpoint =
  epMethod :: string
  epPath :: string
  epDescription :: string
  epParameters :: honoParams
  epFilePath :: "string option"
  epKey :: string

definition routerId :: "string \<Rightarrow> string \<Rightarrow> string" where
  "routerId filePath varName = filePath @ ''::'' @ varName"

definition buildRouterIndex :: "(string \<times> fileData) list \<Rightarrow> (string \<times> routerInfo) list" where
  "buildRouterIndex fileDataMap =
     foldl (\<lambda>routers data.
        foldl (\<lambda>routers (varName, basePath).
          mapSet (routerId (dataFilePath data) varName)
            \<lparr>routerFilePath = dataFilePath data, routerVarName = varName, routerBasePath = basePath\<rparr>
            routers)
          routers (dataRouters data))
       [] (map snd fileDataMap)"

definition resolveChildRouterId ::
    "string \<Rightarrow> fileData \<Rightarrow> (string \<times> fileData) list \<Rightarrow> string option" where
  "resolveChildRouterId child data fileDataMap =
     (if map_of (dataRouters data) child \<noteq> None then Some (routerId (dataFilePath data) child)
      else case map_of (dataImports data) child of
        None \<Rightarrow> None
      | Some imp \<Rightarrow>
          (case map_of fileDataMap (sourceFile imp) of
             None \<Rightarrow> None
           | Some target \<Rightarrow>
               if isDefault imp then
                 (if truthy (exportDefault (dataExports target))
                  then Some (routerId (dataFilePath target) (the (exportDefault (dataExports target))))
                  else None)
               else
                 (let mapped = map_of (exportNamed (dataExports target)) (importName imp)
                  in if truthy mapped then Some (routerId (dataFilePath target) (the mapped))
                     else None)))"

definition addPrefix ::
    "(string \<times> string list) list \<Rightarrow> string \<Rightarrow> string \<Rightarrow> bool \<times> (string \<times> string list) list" where
  "addPrefix prefixesByRouter routerIdValue prefix =
     (let prefixSet = (case map_of prefixesByRouter routerIdValue of None \<Rightarrow> [] | Some s \<Rightarrow> s)
      in if prefix \<in> set prefixSet then (False, prefixesByRouter)
         else (True, mapSet routerIdValue (prefixSet @ [prefix]) prefixesByRouter))"

definition pushTo :: "string \<Rightarrow> 'a \<Rightarrow> (string \<times> 'a list) list \<Rightarrow> (string \<times> 'a list) list" where
  "pushTo rid x m =
     (let m' = (if map_of m rid = None then mapSet rid [] m else m)
      in mapSet rid (the (map_of m' rid) @ [x]) m')"

definition setAdd :: "'a \<Rightarrow> 'a list \<Rightarrow> 'a list" where
  "setAdd x xs = (if x \<in> set xs then xs else xs @ [x])"

record graph =
  endpointsByRouter :: "(string \<times> rawEndpoint list) list"
  edges :: "(string \<times> edge list) list"
  childHasParent :: "string list"

definition collectGraph :: "(string \<times> fileData) list \<Rightarrow> graph" where
  "collectGraph fileDataMap =
     foldl (\<lambda>g data.
        let g1 = foldl (\<lambda>g endpoint.
                   g\<lparr>endpointsByRouter :=
                       pushTo (routerId (dataFilePath data) (routerVar endpoint)) endpoint
                         (endpointsByRouter g)\<rparr>)
                   g (dataEndpoints data)
        in foldl (\<lambda>g mount.
             case resolveChildRouterId (childIdent mount) data fileDataMap of
               None \<Rightarrow> g
             | Some child \<Rightarrow>
                 g\<lparr>edges := pushTo (routerId (dataFilePath data) (parentVar mount))
                              \<lparr>childId = child, edgePrefix = mountPrefix mount\<rparr> (edges g),
                   childHasParent := setAdd child (childHasParent g)\<rparr>)
             g1 (dataMounts data))
       \<lparr>endpointsByRouter = [], edges = [], childHasParent = []\<rparr> (map snd fileDataMap)"

record bfsState =
  prefixesByRouter :: "(string \<times> string list) list"
  queue :: "(string \<times> string) list"

definition enqueue :: "string \<Rightarrow> string \<Rightarrow> bfsState \<Rightarrow> bfsState" where
  "enqueue rid prefix st =
     (case addPrefix (prefixesByRouter st) rid prefix of
        (True, pbr) \<Rightarrow> \<lparr>prefixesByRouter = pbr, queue = queue st @ [(rid, prefix)]\<rparr>
      | (False, pbr) \<Rightarrow> st\<lparr>prefixesByRouter := pbr\<rparr>)"

definition startIds :: "string list \<Rightarrow> string list \<Rightarrow> string list" where
  "startIds routerIds hasParent =
     (let roots = filter (\<lambda>rid. rid \<notin> set hasParent) routerIds
      in if roots \<noteq> [] then roots else routerIds)"

definition bfsInit :: "string list \<Rightarrow> bfsState" where
  "bfsInit start = foldl (\<lambda>st rid. enqueue rid '''' st) \<lparr>prefixesByRouter = [], queue = []\<rparr> start"

definition bfsStep ::
    "(string \<times> routerInfo) list \<Rightarrow> (string \<times> edge list) list \<Rightarrow> bfsState \<Rightarrow> bfsState" where
  "bfsStep routers edgs st =
     (case queue st of
        [] \<Rightarrow> st
      | (rid, prefix) # rest \<Rightarrow>
          (case map_of routers rid of
             None \<Rightarrow> st\<lparr>queue := rest\<rparr>
           | Some router \<Rightarrow>
               (let effective = joinPaths prefix (routerBasePath router);
                    children = (case map_of edgs rid of None \<Rightarrow> [] | Some es \<Rightarrow> es)
                in foldl (\<lambda>st e. enqueue (childId e) (joinPaths effective (edgePrefix e)) st)
                     (st\<lparr>queue := rest\<rparr>) children)))"

partial_function (option) bfsLoop ::
    "(string \<times> routerInfo) list \<Rightarrow> (string \<times> edge list) list \<Rightarrow> bfsState \<Rightarrow> bfsState option" where
  "bfsLoop routers edgs st =
     (if queue st = [] then Some st else bfsLoop routers edgs (bfsStep routers edgs st))"

declare bfsLoop.simps [code]

definition emptyParams :: honoParams where
  "emptyParams = \<lparr>paramBody = None, paramQuery = None\<rparr>"

definition emitEndpoint :: "routerInfo option \<Rightarrow> string \<Rightarrow> rawEndpoint \<Rightarrow> honoEndpoint" where
  "emitEndpoint router effective endpoint =
     (let fullPath = normalizePath (joinPaths effective (rawPath endpoint))
      in \<lparr>epMethod = rawMethod endpoint,
          epPath = fullPath,
          epDescription = (if rawDescription endpoint \<noteq> [] then rawDescription endpoint
                           else rawMethod endpoint @ '' '' @ fullPath),
          epParameters = (case rawParameters endpoint of None \<Rightarrow> emptyParams | Some ps \<Rightarrow> ps),
          epFilePath = map_option routerFilePath router,
          epKey = toKey (rawMethod endpoint) fullPath\<rparr>)"

definition emitRouter ::
    "(string \<times> routerInfo) list \<Rightarrow> (string \<times> string list) list \<Rightarrow> string \<times> rawEndpoint list
       \<Rightarrow> honoEndpoint list" where
  "emitRouter routers pbr = (\<lambda>(rid, list).
     let router = map_of routers rid;
         prefixes = (case map_of pbr rid of None \<Rightarrow> [''''] | Some ps \<Rightarrow> ps)
     in concat (map (\<lambda>prefix.
          let effective = joinPaths prefix (case router of None \<Rightarrow> '''' | Some r \<Rightarrow> routerBasePath r)
          in map (emitEndpoint router effective) list) prefixes))"

definition parseFiles :: "(string \<Rightarrow> fileData option) \<Rightarrow> string list \<Rightarrow> (string \<times> fileData) list" where
  "parseFiles parseHonoFile files =
     foldl (\<lambda>fileDataMap file.
        case parseHonoFile file of
          None \<Rightarrow> fileDataMap
        | Some data \<Rightarrow> mapSet file data fileDataMap) [] files"

definition resolveGraph :: "(string \<times> fileData) list \<Rightarrow> honoEndpoint list option" where
  "resolveGraph fileDataMap =
     (let routers = buildRouterIndex fileDataMap;
          g = collectGraph fileDataMap;
          routerIds = map fst routers;
          start = startIds routerIds (childHasParent g)
      in case bfsLoop routers (edges g) (bfsInit start) of
           None \<Rightarrow> None
         | Some st \<Rightarrow> Some (concat (map (emitRouter routers (prefixesByRouter st)) (endpointsByRouter g))))"

definition extractHonoEndpoints ::
    "(string \<Rightarrow> fileData option) \<Rightarrow> string list \<Rightarrow> honoEndpoint list option" where
  "extractHonoEndpoints parseHonoFile files = resolveGraph (parseFiles parseHonoFile files)"

subsection \<open>The traversal never records a prefix twice\<close>

definition recorded :: "bfsState \<Rightarrow> (string \<times> string) set" where
  "recorded st = {(rid, p). \<exists>ps. map_of (prefixesByRouter st) rid = Some ps \<and> p \<in> set ps}"

definition prefixesOf :: "bfsState \<Rightarrow> string \<Rightarrow> string list" where
  "prefixesOf st rid = (case map_of (prefixesByRouter st) rid of None \<Rightarrow> [] | Some s \<Rightarrow> s)"

lemma recorded_prefixesOf: "((rid, p) \<in> recorded st) = (p \<in> set (prefixesOf st rid))"
  by (cases "map_of (prefixesByRouter st) rid") (simp_all add: recorded_def prefixesOf_def)

lemma addPrefix_alt:
  "addPrefix (prefixesByRouter st) rid p =
     (if p \<in> set (prefixesOf st rid) then (False, prefixesByRouter st)
      else (True, mapSet rid (prefixesOf st rid @ [p]) (prefixesByRouter st)))"
  unfolding addPrefix_def prefixesOf_def Let_def ..

lemma enqueue_recorded: "(rid, p) \<in> recorded st \<Longrightarrow> enqueue rid p st = st"
  unfolding recorded_prefixesOf enqueue_def addPrefix_alt by simp

lemma enqueue_fresh:
  "(rid, p) \<notin> recorded st \<Longrightarrow>
   enqueue rid p st =
    \<lparr>prefixesByRouter = mapSet rid (prefixesOf st rid @ [p]) (prefixesByRouter st),
     queue = queue st @ [(rid, p)]\<rparr>"
  unfolding recorded_prefixesOf enqueue_def addPrefix_alt by simp

definition prefixesDistinct :: "bfsState \<Rightarrow> bool" where
  "prefixesDistinct st = (\<forall>rid. distinct (prefixesOf st rid))"

definition bfsInv :: "(string \<times> string) list \<Rightarrow> bfsState \<Rightarrow> bool" where
  "bfsInv popped st =
     (distinct (popped @ queue st) \<and> set (popped @ queue st) = recorded st \<and> prefixesDistinct st)"

lemma prefixesOf_mapSet:
  "prefixesOf \<lparr>prefixesByRouter = mapSet rid ps pbr, queue = q\<rparr> r =
     (if r = rid then ps else prefixesOf \<lparr>prefixesByRouter = pbr, queue = q\<rparr> r)"
  by (simp add: prefixesOf_def map_of_mapSet)

lemma prefixesOf_queue_irrelevant:
  "prefixesOf \<lparr>prefixesByRouter = prefixesByRouter st, queue = q\<rparr> r = prefixesOf st r"
  by (simp add: prefixesOf_def)

lemma enqueue_inv:
  assumes "bfsInv popped st"
  shows "bfsInv popped (enqueue rid p st)"
proof (cases "(rid, p) \<in> recorded st")
  case True
  then show ?thesis using assms by (simp add: enqueue_recorded)
next
  case False
  let ?st' = "enqueue rid p st"
  have eq: "?st' =
    \<lparr>prefixesByRouter = mapSet rid (prefixesOf st rid @ [p]) (prefixesByRouter st),
     queue = queue st @ [(rid, p)]\<rparr>"
    by (rule enqueue_fresh [OF False])
  have pre: "prefixesOf ?st' r = (if r = rid then prefixesOf st rid @ [p] else prefixesOf st r)" for r
    unfolding eq prefixesOf_mapSet prefixesOf_queue_irrelevant by simp
  have rec: "recorded ?st' = insert (rid, p) (recorded st)"
  proof (rule set_eqI)
    fix x :: "string \<times> string"
    obtain r q where x: "x = (r, q)" by (cases x)
    show "(x \<in> recorded ?st') = (x \<in> insert (rid, p) (recorded st))"
      unfolding x recorded_prefixesOf insert_iff pre by auto
  qed
  have notin: "p \<notin> set (prefixesOf st rid)"
    using False by (simp add: recorded_prefixesOf)
  have "prefixesDistinct ?st'"
    unfolding prefixesDistinct_def pre
    using assms notin by (simp add: bfsInv_def prefixesDistinct_def)
  moreover have "(rid, p) \<notin> set (popped @ queue st)"
    using assms False by (simp add: bfsInv_def)
  then have "distinct (popped @ queue ?st')"
    using assms unfolding eq by (simp add: bfsInv_def)
  moreover have "set (popped @ queue ?st') = recorded ?st'"
    unfolding rec using assms unfolding eq by (simp add: bfsInv_def)
  ultimately show ?thesis by (simp add: bfsInv_def)
qed

lemma foldl_enqueue_inv:
  "bfsInv popped st \<Longrightarrow> bfsInv popped (foldl (\<lambda>st e. enqueue (f e) (g e) st) st es)"
  by (induction es arbitrary: st) (simp_all add: enqueue_inv)

lemma bfsInit_inv: "bfsInv [] (bfsInit start)"
proof -
  have "bfsInv [] \<lparr>prefixesByRouter = [], queue = []\<rparr>"
    by (simp add: bfsInv_def recorded_def prefixesDistinct_def prefixesOf_def)
  then show ?thesis unfolding bfsInit_def by (rule foldl_enqueue_inv)
qed

lemma bfsStep_inv:
  assumes "bfsInv popped st" "queue st = x # rest"
  shows "bfsInv (popped @ [x]) (bfsStep routers edgs st)"
proof -
  have base: "bfsInv (popped @ [x]) (st\<lparr>queue := rest\<rparr>)"
    using assms by (simp add: bfsInv_def recorded_def prefixesDistinct_def prefixesOf_def)
  obtain rid prefix where x: "x = (rid, prefix)" by (cases x)
  show ?thesis
  proof (cases "map_of routers rid")
    case None
    then show ?thesis using base assms(2) by (simp add: bfsStep_def x)
  next
    case (Some router)
    then show ?thesis using assms(2) foldl_enqueue_inv [OF base]
      by (simp add: bfsStep_def x Let_def)
  qed
qed

lemma bfsStep_empty: "queue st = [] \<Longrightarrow> bfsStep routers edgs st = st"
  by (simp add: bfsStep_def)

fun bfsTrace ::
    "(string \<times> routerInfo) list \<Rightarrow> (string \<times> edge list) list \<Rightarrow> nat \<Rightarrow> bfsState \<Rightarrow> (string \<times> string) list" where
  "bfsTrace routers edgs 0 st = []"
| "bfsTrace routers edgs (Suc k) st =
     (case queue st of
        [] \<Rightarrow> []
      | x # _ \<Rightarrow> x # bfsTrace routers edgs k (bfsStep routers edgs st))"

lemma funpow_fixed: "f x = x \<Longrightarrow> (f ^^ k) x = x"
  by (induction k) simp_all

lemma bfsTrace_inv:
  "bfsInv popped st \<Longrightarrow>
   bfsInv (popped @ bfsTrace routers edgs k st) ((bfsStep routers edgs ^^ k) st)"
proof (induction k arbitrary: popped st)
  case 0
  then show ?case by simp
next
  case (Suc k)
  show ?case
  proof (cases "queue st")
    case Nil
    then have "(bfsStep routers edgs ^^ Suc k) st = st"
      by (intro funpow_fixed bfsStep_empty)
    then show ?thesis using Suc.prems Nil by simp
  next
    case (Cons x rest)
    from Suc.IH [OF bfsStep_inv [OF Suc.prems Cons]] show ?thesis
      by (simp add: Cons funpow_swap1)
  qed
qed

lemma bfsLoop_inv:
  assumes "bfsLoop routers edgs st = Some st'" and "bfsInv popped st"
  shows "(\<exists>popped'. bfsInv popped' st') \<and> queue st' = []"
proof -
  have "(\<exists>p. bfsInv p st) \<longrightarrow> (\<exists>p. bfsInv p st') \<and> queue st' = []"
  proof (rule bfsLoop.raw_induct
      [where P = "\<lambda>r e s s'. (\<exists>p. bfsInv p s) \<longrightarrow> (\<exists>p. bfsInv p s') \<and> queue s' = []"])
    show "bfsLoop routers edgs st = Some st'" by fact
  next
    fix f r e s s'
    assume IH: "\<And>e s b y. f e s b = Some y \<Longrightarrow>
                 (\<exists>p. bfsInv p b) \<longrightarrow> (\<exists>p. bfsInv p y) \<and> queue y = []"
      and eq: "(if queue s = [] then Some s else f r e (bfsStep r e s)) = Some s'"
    show "(\<exists>p. bfsInv p s) \<longrightarrow> (\<exists>p. bfsInv p s') \<and> queue s' = []"
    proof (cases "queue s")
      case Nil
      then show ?thesis using eq by auto
    next
      case (Cons x rest)
      then have "f r e (bfsStep r e s) = Some s'" using eq by simp
      from IH [OF this] show ?thesis using bfsStep_inv [OF _ Cons] by blast
    qed
  qed
  then show ?thesis using assms(2) by blast
qed

lemma prefixesOf_Some: "map_of (prefixesByRouter st) rid = Some ps \<Longrightarrow> prefixesOf st rid = ps"
  by (simp add: prefixesOf_def)

lemma emitRouter_recorded:
  "map_of pbr rid = Some ps \<Longrightarrow>
   emitRouter routers pbr (rid, list) =
     concat (map (\<lambda>prefix. map (emitEndpoint (map_of routers rid)
        (joinPaths prefix (case map_of routers rid of None \<Rightarrow> '''' | Some r \<Rightarrow> routerBasePath r))) list) ps)"
  by (simp add: emitRouter_def Let_def)

lemma emitRouter_unrecorded:
  "map_of pbr rid = None \<Longrightarrow>
   emitRouter routers pbr (rid, list) =
     map (emitEndpoint (map_of routers rid)
        (joinPaths '''' (case map_of routers rid of None \<Rightarrow> '''' | Some r \<Rightarrow> routerBasePath r))) list"
  by (simp add: emitRouter_def Let_def)

text \<open>
  What the resolver emits, as a list of triples (router node, prefix, index of the route
  in the router's list): for each router with routes, in order, each of its prefixes
  (the recorded ones, or the empty prefix when none is recorded), and for each prefix
  each route. \<open>emission\<close> is the endpoint built for such a triple, and
  \<open>traversal\<close> is the state in which the loop ends.
\<close>

definition prefixesFor :: "(string \<times> string list) list \<Rightarrow> string \<Rightarrow> string list" where
  "prefixesFor pbr rid = (case map_of pbr rid of None \<Rightarrow> [''''] | Some ps \<Rightarrow> ps)"

definition emissions ::
    "(string \<times> string list) list \<Rightarrow> (string \<times> rawEndpoint list) list \<Rightarrow> (string \<times> string \<times> nat) list" where
  "emissions pbr ebr =
     concat (map (\<lambda>(rid, list).
       concat (map (\<lambda>prefix. map (\<lambda>i. (rid, prefix, i)) [0..<length list]) (prefixesFor pbr rid))) ebr)"

definition emission ::
    "(string \<times> routerInfo) list \<Rightarrow> (string \<times> rawEndpoint list) list \<Rightarrow> string \<times> string \<times> nat \<Rightarrow> honoEndpoint" where
  "emission routers ebr = (\<lambda>(rid, prefix, i).
     emitEndpoint (map_of routers rid)
       (joinPaths prefix (case map_of routers rid of None \<Rightarrow> '''' | Some r \<Rightarrow> routerBasePath r))
       ((case map_of ebr rid of None \<Rightarrow> [] | Some list \<Rightarrow> list) ! i))"

definition traversal :: "(string \<times> fileData) list \<Rightarrow> bfsState option" where
  "traversal fileDataMap =
     bfsLoop (buildRouterIndex fileDataMap) (edges (collectGraph fileDataMap))
       (bfsInit (startIds (map fst (buildRouterIndex fileDataMap)) (childHasParent (collectGraph fileDataMap))))"

lemma pushTo_keys: "distinct (map fst m) \<Longrightarrow> distinct (map fst (pushTo rid x m))"
  by (simp add: pushTo_def Let_def mapSet_keys)

lemma foldl_keep:
  "P a \<Longrightarrow> (\<And>a x. P a \<Longrightarrow> P (f a x)) \<Longrightarrow> P (foldl f a xs)"
  by (induction xs arbitrary: a) simp_all

lemma collectGraph_keys: "distinct (map fst (endpointsByRouter (collectGraph fileDataMap)))"
proof -
  let ?P = "\<lambda>g. distinct (map fst (endpointsByRouter g))"
  show ?thesis
    unfolding collectGraph_def
  proof (rule foldl_keep [where P = ?P])
    show "?P \<lparr>endpointsByRouter = [], edges = [], childHasParent = []\<rparr>" by simp
  next
    fix g :: graph and data :: fileData
    assume g: "?P g"
    let ?g1 = "foldl (\<lambda>g endpoint.
                   g\<lparr>endpointsByRouter :=
                       pushTo (routerId (dataFilePath data) (routerVar endpoint)) endpoint
                         (endpointsByRouter g)\<rparr>)
                   g (dataEndpoints data)"
    have g1: "?P ?g1"
      by (rule foldl_keep [where P = ?P]) (simp_all add: g pushTo_keys)
    have "?P (foldl (\<lambda>g mount.
             case resolveChildRouterId (childIdent mount) data fileDataMap of
               None \<Rightarrow> g
             | Some child \<Rightarrow>
                 g\<lparr>edges := pushTo (routerId (dataFilePath data) (parentVar mount))
                              \<lparr>childId = child, edgePrefix = mountPrefix mount\<rparr> (edges g),
                   childHasParent := setAdd child (childHasParent g)\<rparr>)
             ?g1 (dataMounts data))"
      by (rule foldl_keep [where P = ?P]) (simp_all add: g1 split: option.splits)
    then show "?P (let g1 = ?g1 in foldl (\<lambda>g mount.
             case resolveChildRouterId (childIdent mount) data fileDataMap of
               None \<Rightarrow> g
             | Some child \<Rightarrow>
                 g\<lparr>edges := pushTo (routerId (dataFilePath data) (parentVar mount))
                              \<lparr>childId = child, edgePrefix = mountPrefix mount\<rparr> (edges g),
                   childHasParent := setAdd child (childHasParent g)\<rparr>)
             g1 (dataMounts data))"
      by (simp add: Let_def)
  qed
qed

lemma distinct_tagged_concat:
  "distinct (map fst kvs) \<Longrightarrow>
   (\<And>kv. kv \<in> set kvs \<Longrightarrow> distinct (f kv) \<and> (\<forall>x\<in>set (f kv). tag x = fst kv)) \<Longrightarrow>
   distinct (concat (map f kvs))"
proof (induction kvs)
  case Nil
  then show ?case by simp
next
  case (Cons kv kvs)
  have d: "distinct (concat (map f kvs))" using Cons by simp
  have "set (f kv) \<inter> set (concat (map f kvs)) = {}"
  proof (rule ccontr)
    assume "set (f kv) \<inter> set (concat (map f kvs)) \<noteq> {}"
    then obtain x kv' where x: "x \<in> set (f kv)" "kv' \<in> set kvs" "x \<in> set (f kv')" by auto
    have "tag x = fst kv" using Cons.prems(2) [of kv] x(1) by simp
    moreover have "tag x = fst kv'" using Cons.prems(2) [of kv'] x(2,3) by simp
    ultimately have "fst kv \<in> fst ` set kvs" using x(2) by (metis imageI)
    then show False using Cons.prems(1) by simp
  qed
  then show ?case using d Cons.prems(2) [of kv] by simp
qed

lemma distinct_prefix_block:
  "distinct ps \<Longrightarrow> distinct (concat (map (\<lambda>prefix. map (\<lambda>i. (rid, prefix, i)) [0..<n]) ps))"
proof (induction ps)
  case Nil
  then show ?case by simp
next
  case (Cons p ps)
  have "distinct (map (\<lambda>i. (rid, p, i)) [0..<n])" by (simp add: distinct_map inj_on_def)
  then show ?case using Cons by auto
qed

lemma emissions_distinct:
  assumes "distinct (map fst ebr)" "\<And>rid. distinct (prefixesFor pbr rid)"
  shows "distinct (emissions pbr ebr)"
  unfolding emissions_def
proof (rule distinct_tagged_concat [where tag = fst, OF assms(1)])
  fix kv :: "string \<times> rawEndpoint list"
  assume "kv \<in> set ebr"
  obtain rid list where kv: "kv = (rid, list)" by (cases kv)
  show "distinct (case kv of (rid, list) \<Rightarrow>
           concat (map (\<lambda>prefix. map (\<lambda>i. (rid, prefix, i)) [0..<length list]) (prefixesFor pbr rid)))
        \<and> (\<forall>x\<in>set (case kv of (rid, list) \<Rightarrow>
           concat (map (\<lambda>prefix. map (\<lambda>i. (rid, prefix, i)) [0..<length list]) (prefixesFor pbr rid))).
             fst x = fst kv)"
    unfolding kv using distinct_prefix_block [OF assms(2) [of rid]] by auto
qed

lemma emitRouter_emission:
  assumes "map_of ebr rid = Some list"
  shows "emitRouter routers pbr (rid, list) =
     map (emission routers ebr)
       (concat (map (\<lambda>prefix. map (\<lambda>i. (rid, prefix, i)) [0..<length list]) (prefixesFor pbr rid)))"
proof -
  have nth: "map (\<lambda>i. e (list ! i)) [0..<length list] = map e list" for e :: "rawEndpoint \<Rightarrow> honoEndpoint"
  proof -
    have "map (\<lambda>i. e (list ! i)) [0..<length list] = map e (map ((!) list) [0..<length list])"
      by (simp add: comp_def)
    then show ?thesis by (simp only: map_nth)
  qed
  show ?thesis
    by (simp add: emitRouter_def emission_def prefixesFor_def Let_def map_concat comp_def assms nth)
qed

lemma emitted_emissions:
  assumes "distinct (map fst ebr)"
  shows "concat (map (emitRouter routers pbr) ebr) = map (emission routers ebr) (emissions pbr ebr)"
proof -
  have "map (emitRouter routers pbr) ebr =
        map (\<lambda>kv. map (emission routers ebr) (case kv of (rid, list) \<Rightarrow>
           concat (map (\<lambda>prefix. map (\<lambda>i. (rid, prefix, i)) [0..<length list]) (prefixesFor pbr rid)))) ebr"
  proof (rule map_cong [OF refl])
    fix kv assume m: "kv \<in> set ebr"
    obtain rid list where kv: "kv = (rid, list)" by (cases kv)
    have "map_of ebr rid = Some list" using assms m kv by simp
    from emitRouter_emission [OF this] show "emitRouter routers pbr kv =
      map (emission routers ebr) (case kv of (rid, list) \<Rightarrow>
           concat (map (\<lambda>prefix. map (\<lambda>i. (rid, prefix, i)) [0..<length list]) (prefixesFor pbr rid)))"
      by (simp add: kv)
  qed
  then have A: "concat (map (emitRouter routers pbr) ebr) =
        concat (map (\<lambda>kv. map (emission routers ebr) (case kv of (rid, list) \<Rightarrow>
           concat (map (\<lambda>prefix. map (\<lambda>i. (rid, prefix, i)) [0..<length list]) (prefixesFor pbr rid)))) ebr)"
    by (rule arg_cong)
  have B: "map (emission routers ebr) (emissions pbr ebr) =
        concat (map (\<lambda>kv. map (emission routers ebr) (case kv of (rid, list) \<Rightarrow>
           concat (map (\<lambda>prefix. map (\<lambda>i. (rid, prefix, i)) [0..<length list]) (prefixesFor pbr rid)))) ebr)"
    by (simp add: emissions_def map_concat comp_def)
  show ?thesis unfolding A B ..
qed

lemma prefixesFor_distinct:
  assumes "bfsLoop routers edgs (bfsInit start) = Some st"
  shows "distinct (prefixesFor (prefixesByRouter st) rid)"
proof -
  from bfsLoop_inv [OF assms bfsInit_inv] obtain popped where "bfsInv popped st" by blast
  then have "distinct (prefixesOf st rid)" by (simp add: bfsInv_def prefixesDistinct_def)
  then show ?thesis by (cases "map_of (prefixesByRouter st) rid") (simp_all add: prefixesFor_def prefixesOf_def)
qed

lemma resolveGraph_emissions:
  assumes "resolveGraph fileDataMap = Some eps"
  shows "\<exists>st. traversal fileDataMap = Some st
     \<and> distinct (emissions (prefixesByRouter st) (endpointsByRouter (collectGraph fileDataMap)))
     \<and> eps = map (emission (buildRouterIndex fileDataMap) (endpointsByRouter (collectGraph fileDataMap)))
               (emissions (prefixesByRouter st) (endpointsByRouter (collectGraph fileDataMap)))"
proof -
  from assms obtain st where st: "traversal fileDataMap = Some st"
    and eps: "eps = concat (map (emitRouter (buildRouterIndex fileDataMap) (prefixesByRouter st))
                 (endpointsByRouter (collectGraph fileDataMap)))"
    by (auto simp: resolveGraph_def traversal_def Let_def split: option.splits)
  have "distinct (emissions (prefixesByRouter st) (endpointsByRouter (collectGraph fileDataMap)))"
    using st prefixesFor_distinct unfolding traversal_def
    by (intro emissions_distinct collectGraph_keys) blast
  then show ?thesis using st eps emitted_emissions [OF collectGraph_keys] by simp
qed

text \<open>
  A diamond in one file: \<open>root\<close> mounts \<open>left\<close> under \<open>p1\<close> and \<open>right\<close> under
  \<open>p2\<close>, \<open>left\<close> mounts \<open>child\<close> under \<open>q1\<close> and \<open>right\<close> mounts it under \<open>q2\<close>;
  the routes are declared on \<open>child\<close>, and no router has a base path.
  \<open>mountedAt prefix p\<close> is the prefix that a router reached under \<open>prefix\<close> gives to
  a router it mounts under \<open>p\<close>.
\<close>

definition diamondOf :: "string \<Rightarrow> string \<Rightarrow> string \<Rightarrow> string \<Rightarrow> rawEndpoint list \<Rightarrow> fileData" where
  "diamondOf p1 p2 q1 q2 routes =
     \<lparr>dataFilePath = ''/app/d.ts'',
      dataRouters = [(''root'', ''''), (''left'', ''''), (''right'', ''''), (''child'', '''')],
      dataEndpoints = map (\<lambda>e. e\<lparr>routerVar := ''child''\<rparr>) routes,
      dataMounts = [\<lparr>parentVar = ''root'', childIdent = ''left'', mountPrefix = p1\<rparr>,
                    \<lparr>parentVar = ''root'', childIdent = ''right'', mountPrefix = p2\<rparr>,
                    \<lparr>parentVar = ''left'', childIdent = ''child'', mountPrefix = q1\<rparr>,
                    \<lparr>parentVar = ''right'', childIdent = ''child'', mountPrefix = q2\<rparr>],
      dataExports = \<lparr>exportDefault = None, exportNamed = []\<rparr>,
      dataImports = []\<rparr>"

definition parseDiamond :: "fileData \<Rightarrow> string \<Rightarrow> fileData option" where
  "parseDiamond d f = (if f = ''/app/d.ts'' then Some d else None)"

definition mountedAt :: "string \<Rightarrow> string \<Rightarrow> string" where
  "mountedAt prefix p = joinPaths (joinPaths prefix '''') p"

definition diamondRouters :: "(string \<times> routerInfo) list" where
  "diamondRouters =
     [(''/app/d.ts::root'', \<lparr>routerFilePath = ''/app/d.ts'', routerVarName = ''root'', routerBasePath = ''''\<rparr>),
      (''/app/d.ts::left'', \<lparr>routerFilePath = ''/app/d.ts'', routerVarName = ''left'', routerBasePath = ''''\<rparr>),
      (''/app/d.ts::right'', \<lparr>routerFilePath = ''/app/d.ts'', routerVarName = ''right'', routerBasePath = ''''\<rparr>),
      (''/app/d.ts::child'', \<lparr>routerFilePath = ''/app/d.ts'', routerVarName = ''child'', routerBasePath = ''''\<rparr>)]"

definition diamondEdges :: "string \<Rightarrow> string \<Rightarrow> string \<Rightarrow> string \<Rightarrow> (string \<times> edge list) list" where
  "diamondEdges p1 p2 q1 q2 =
     [(''/app/d.ts::root'', [\<lparr>childId = ''/app/d.ts::left'', edgePrefix = p1\<rparr>,
                              \<lparr>childId = ''/app/d.ts::right'', edgePrefix = p2\<rparr>]),
      (''/app/d.ts::left'', [\<lparr>childId = ''/app/d.ts::child'', edgePrefix = q1\<rparr>]),
      (''/app/d.ts::right'', [\<lparr>childId = ''/app/d.ts::child'', edgePrefix = q2\<rparr>])]"

lemma pushTo_fold_same:
  "foldl (\<lambda>m e. pushTo rid e m) [(rid, xs)] es = [(rid, xs @ es)]"
  by (induction es arbitrary: xs) (simp_all add: pushTo_def)

lemma pushTo_fold_empty:
  "foldl (\<lambda>m e. pushTo rid e m) [] es = (if es = [] then [] else [(rid, es)])"
proof (cases es)
  case Nil
  then show ?thesis by simp
next
  case (Cons e es')
  have "pushTo rid e [] = [(rid, [e])]" by (simp add: pushTo_def)
  then show ?thesis using pushTo_fold_same [of rid "[e]" es'] by (simp add: Cons)
qed

lemma endpoints_fold:
  "foldl (\<lambda>g endpoint. g\<lparr>endpointsByRouter :=
        pushTo (routerId fp (routerVar endpoint)) endpoint (endpointsByRouter g)\<rparr>) g
      (map (\<lambda>e. e\<lparr>routerVar := v\<rparr>) routes) =
   g\<lparr>endpointsByRouter := foldl (\<lambda>m e. pushTo (routerId fp v) e m) (endpointsByRouter g)
        (map (\<lambda>e. e\<lparr>routerVar := v\<rparr>) routes)\<rparr>"
  by (induction routes arbitrary: g) simp_all

lemma diamond_parse:
  "parseFiles (parseDiamond d) [''/app/d.ts''] = [(''/app/d.ts'', d)]"
  by (simp add: parseFiles_def parseDiamond_def)

lemma diamond_routers:
  "buildRouterIndex [(''/app/d.ts'', diamondOf p1 p2 q1 q2 routes)] = diamondRouters"
  by (simp add: buildRouterIndex_def diamondOf_def diamondRouters_def routerId_def)

lemma diamond_child:
  "resolveChildRouterId ''left'' (diamondOf p1 p2 q1 q2 routes) fdm = Some ''/app/d.ts::left''"
  "resolveChildRouterId ''right'' (diamondOf p1 p2 q1 q2 routes) fdm = Some ''/app/d.ts::right''"
  "resolveChildRouterId ''child'' (diamondOf p1 p2 q1 q2 routes) fdm = Some ''/app/d.ts::child''"
  by (simp_all add: resolveChildRouterId_def diamondOf_def routerId_def)

lemma diamond_fields:
  "dataFilePath (diamondOf p1 p2 q1 q2 routes) = ''/app/d.ts''"
  "dataEndpoints (diamondOf p1 p2 q1 q2 routes) = map (\<lambda>e. e\<lparr>routerVar := ''child''\<rparr>) routes"
  "dataMounts (diamondOf p1 p2 q1 q2 routes) =
     [\<lparr>parentVar = ''root'', childIdent = ''left'', mountPrefix = p1\<rparr>,
      \<lparr>parentVar = ''root'', childIdent = ''right'', mountPrefix = p2\<rparr>,
      \<lparr>parentVar = ''left'', childIdent = ''child'', mountPrefix = q1\<rparr>,
      \<lparr>parentVar = ''right'', childIdent = ''child'', mountPrefix = q2\<rparr>]"
  by (simp_all add: diamondOf_def)

lemma pushTo_edges:
  "pushTo ''/app/d.ts::root'' e1 [] = [(''/app/d.ts::root'', [e1])]"
  "pushTo ''/app/d.ts::root'' e2 [(''/app/d.ts::root'', [e1])] = [(''/app/d.ts::root'', [e1, e2])]"
  "pushTo ''/app/d.ts::left'' e3 [(''/app/d.ts::root'', [e1, e2])] =
     [(''/app/d.ts::root'', [e1, e2]), (''/app/d.ts::left'', [e3])]"
  "pushTo ''/app/d.ts::right'' e4 [(''/app/d.ts::root'', [e1, e2]), (''/app/d.ts::left'', [e3])] =
     [(''/app/d.ts::root'', [e1, e2]), (''/app/d.ts::left'', [e3]), (''/app/d.ts::right'', [e4])]"
  by (simp_all add: pushTo_def)

lemma diamond_graph:
  "collectGraph [(''/app/d.ts'', diamondOf p1 p2 q1 q2 routes)] =
     \<lparr>endpointsByRouter =
        (if routes = [] then []
         else [(''/app/d.ts::child'', map (\<lambda>e. e\<lparr>routerVar := ''child''\<rparr>) routes)]),
      edges = diamondEdges p1 p2 q1 q2,
      childHasParent = [''/app/d.ts::left'', ''/app/d.ts::right'', ''/app/d.ts::child'']\<rparr>"
proof -
  let ?g0 = "\<lparr>endpointsByRouter = [], edges = [], childHasParent = []\<rparr>"
  let ?E = "(if routes = [] then []
         else [(''/app/d.ts::child'', map (\<lambda>e. e\<lparr>routerVar := ''child''\<rparr>) routes)])"
  have g1: "foldl (\<lambda>g endpoint. g\<lparr>endpointsByRouter :=
        pushTo (routerId ''/app/d.ts'' (routerVar endpoint)) endpoint (endpointsByRouter g)\<rparr>) ?g0
      (map (\<lambda>e. e\<lparr>routerVar := ''child''\<rparr>) routes) =
      \<lparr>endpointsByRouter = ?E, edges = [], childHasParent = []\<rparr>"
    unfolding endpoints_fold by (simp add: pushTo_fold_empty routerId_def)
  have ids: "routerId ''/app/d.ts'' ''root'' = ''/app/d.ts::root''"
    "routerId ''/app/d.ts'' ''left'' = ''/app/d.ts::left''"
    "routerId ''/app/d.ts'' ''right'' = ''/app/d.ts::right''"
    by (simp_all add: routerId_def)
  show ?thesis
    by (simp add: collectGraph_def diamond_fields g1 diamond_child ids pushTo_edges setAdd_def
        diamondEdges_def del: foldl_map)
qed

lemma bfsLoop_step: "queue st \<noteq> [] \<Longrightarrow> bfsLoop routers edgs st = bfsLoop routers edgs (bfsStep routers edgs st)"
  by (subst bfsLoop.simps) simp

lemma bfsLoop_done: "queue st = [] \<Longrightarrow> bfsLoop routers edgs st = Some st"
  by (subst bfsLoop.simps) simp

lemma diamond_start:
  "startIds (map fst diamondRouters) [''/app/d.ts::left'', ''/app/d.ts::right'', ''/app/d.ts::child'']
     = [''/app/d.ts::root'']"
  by (simp add: startIds_def diamondRouters_def)

lemma diamond_init:
  "bfsInit [''/app/d.ts::root''] =
     \<lparr>prefixesByRouter = [(''/app/d.ts::root'', [''''])], queue = [(''/app/d.ts::root'', '''')]\<rparr>"
  by (simp add: bfsInit_def enqueue_def addPrefix_def)

lemma diamond_bfs:
  assumes c1: "mountedAt (mountedAt '''' p1) q1 = c" and c2: "mountedAt (mountedAt '''' p2) q2 = c"
  shows "bfsLoop diamondRouters (diamondEdges p1 p2 q1 q2) (bfsInit [''/app/d.ts::root'']) =
     Some \<lparr>prefixesByRouter =
             [(''/app/d.ts::root'', ['''']), (''/app/d.ts::left'', [mountedAt '''' p1]),
              (''/app/d.ts::right'', [mountedAt '''' p2]), (''/app/d.ts::child'', [c])],
           queue = []\<rparr>"
proof -
  let ?r = diamondRouters and ?e = "diamondEdges p1 p2 q1 q2"
  let ?L = "mountedAt '''' p1" and ?R = "mountedAt '''' p2"
  let ?s0 = "\<lparr>prefixesByRouter = [(''/app/d.ts::root'', [''''])], queue = [(''/app/d.ts::root'', '''')]\<rparr>"
  let ?s1 = "\<lparr>prefixesByRouter = [(''/app/d.ts::root'', ['''']), (''/app/d.ts::left'', [?L]),
                 (''/app/d.ts::right'', [?R])],
              queue = [(''/app/d.ts::left'', ?L), (''/app/d.ts::right'', ?R)]\<rparr>"
  let ?s2 = "\<lparr>prefixesByRouter = [(''/app/d.ts::root'', ['''']), (''/app/d.ts::left'', [?L]),
                 (''/app/d.ts::right'', [?R]), (''/app/d.ts::child'', [c])],
              queue = [(''/app/d.ts::right'', ?R), (''/app/d.ts::child'', c)]\<rparr>"
  let ?s3 = "\<lparr>prefixesByRouter = [(''/app/d.ts::root'', ['''']), (''/app/d.ts::left'', [?L]),
                 (''/app/d.ts::right'', [?R]), (''/app/d.ts::child'', [c])],
              queue = [(''/app/d.ts::child'', c)]\<rparr>"
  let ?s4 = "\<lparr>prefixesByRouter = [(''/app/d.ts::root'', ['''']), (''/app/d.ts::left'', [?L]),
                 (''/app/d.ts::right'', [?R]), (''/app/d.ts::child'', [c])],
              queue = []\<rparr>"
  have 1: "bfsStep ?r ?e ?s0 = ?s1"
    by (simp add: bfsStep_def diamondRouters_def diamondEdges_def enqueue_def addPrefix_def mountedAt_def Let_def)
  have 2: "bfsStep ?r ?e ?s1 = ?s2"
    using c1 by (simp add: bfsStep_def diamondRouters_def diamondEdges_def enqueue_def addPrefix_def mountedAt_def Let_def)
  have 3: "bfsStep ?r ?e ?s2 = ?s3"
    using c2 by (simp add: bfsStep_def diamondRouters_def diamondEdges_def enqueue_def addPrefix_def mountedAt_def Let_def)
  have 4: "bfsStep ?r ?e ?s3 = ?s4"
    by (simp add: bfsStep_def diamondRouters_def diamondEdges_def enqueue_def addPrefix_def Let_def)
  have "bfsLoop ?r ?e ?s0 = bfsLoop ?r ?e ?s1" using bfsLoop_step [of ?s0 ?r ?e] 1 by simp
  also have "\<dots> = bfsLoop ?r ?e ?s2" using bfsLoop_step [of ?s1 ?r ?e] 2 by simp
  also have "\<dots> = bfsLoop ?r ?e ?s3" using bfsLoop_step [of ?s2 ?r ?e] 3 by simp
  also have "\<dots> = bfsLoop ?r ?e ?s4" using bfsLoop_step [of ?s3 ?r ?e] 4 by simp
  also have "\<dots> = Some ?s4" by (rule bfsLoop_done) simp
  finally show ?thesis unfolding diamond_init .
qed

lemma diamond_emitted:
  assumes c1: "mountedAt (mountedAt '''' p1) q1 = c" and c2: "mountedAt (mountedAt '''' p2) q2 = c"
  shows "extractHonoEndpoints (parseDiamond (diamondOf p1 p2 q1 q2 routes)) [''/app/d.ts''] =
     Some (map (emitEndpoint (map_of diamondRouters ''/app/d.ts::child'') (joinPaths c ''''))
             (map (\<lambda>e. e\<lparr>routerVar := ''child''\<rparr>) routes))"
proof -
  have ch: "map_of diamondRouters ''/app/d.ts::child'' =
      Some \<lparr>routerFilePath = ''/app/d.ts'', routerVarName = ''child'', routerBasePath = ''''\<rparr>"
    by (simp add: diamondRouters_def)
  show ?thesis
    unfolding extractHonoEndpoints_def diamond_parse resolveGraph_def diamond_routers diamond_graph Let_def
    by (simp add: diamond_start diamond_bfs [OF c1 c2] emitRouter_def ch Let_def)
qed

text \<open>
  C2. \<open>bfsTrace k\<close> lists the queue entries popped by the first \<open>k\<close> iterations
  of the traversal loop; together with the entries still queued these are all the pairs
  (router node, prefix) enqueued so far. For every mount graph and every number of
  iterations they are pairwise distinct, so no pair is enqueued twice, and the prefixes
  recorded for a router node are pairwise distinct. Whenever the resolver returns, the
  endpoints it returns are the emissions of the final state, one endpoint for each, and
  no emission occurs twice: every route of a router is emitted exactly once for each
  prefix of the router. For a diamond whose two mount paths give the child the same
  prefix \<open>c\<close>, whatever the four mount prefixes and the child's routes are, the resolver
  returns, and its result is the child's routes under \<open>c\<close>, each of them once.
\<close>

theorem bfs_never_revisits:
  "distinct (bfsTrace routers edgs k (bfsInit start) @ queue ((bfsStep routers edgs ^^ k) (bfsInit start)))
   \<and> (map_of (prefixesByRouter ((bfsStep routers edgs ^^ k) (bfsInit start))) rid = Some ps' \<longrightarrow> distinct ps')
   \<and> (bfsLoop routers edgs (bfsInit start) = Some st \<longrightarrow>
        map_of (prefixesByRouter st) rid = Some ps \<longrightarrow>
          distinct ps \<and>
          emitRouter routers (prefixesByRouter st) (rid, list) =
            concat (map (\<lambda>prefix. map (emitEndpoint (map_of routers rid)
              (joinPaths prefix (case map_of routers rid of None \<Rightarrow> '''' | Some r \<Rightarrow> routerBasePath r))) list) ps))
   \<and> (extractHonoEndpoints parseHonoFile files = Some eps \<longrightarrow>
        (\<exists>final. traversal (parseFiles parseHonoFile files) = Some final
           \<and> distinct (emissions (prefixesByRouter final)
                 (endpointsByRouter (collectGraph (parseFiles parseHonoFile files))))
           \<and> eps = map (emission (buildRouterIndex (parseFiles parseHonoFile files))
                          (endpointsByRouter (collectGraph (parseFiles parseHonoFile files))))
                      (emissions (prefixesByRouter final)
                         (endpointsByRouter (collectGraph (parseFiles parseHonoFile files))))))
   \<and> (mountedAt (mountedAt '''' p1) q1 = c \<longrightarrow> mountedAt (mountedAt '''' p2) q2 = c \<longrightarrow>
        extractHonoEndpoints (parseDiamond (diamondOf p1 p2 q1 q2 routes)) [''/app/d.ts''] =
          Some (map (emitEndpoint (map_of diamondRouters ''/app/d.ts::child'') (joinPaths c []))
                  (map (\<lambda>e. e\<lparr>routerVar := ''child''\<rparr>) routes)))"
proof -
  let ?stk = "(bfsStep routers edgs ^^ k) (bfsInit start)"
  have inv: "bfsInv ([] @ bfsTrace routers edgs k (bfsInit start)) ?stk"
    by (rule bfsTrace_inv [OF bfsInit_inv])
  then have 1: "distinct (bfsTrace routers edgs k (bfsInit start) @ queue ?stk)"
    by (simp add: bfsInv_def)
  have 2: "map_of (prefixesByRouter ?stk) rid = Some ps' \<longrightarrow> distinct ps'"
    using inv prefixesOf_Some [of ?stk rid ps'] by (auto simp: bfsInv_def prefixesDistinct_def)
  have 3: "distinct ps" if "bfsLoop routers edgs (bfsInit start) = Some st"
      "map_of (prefixesByRouter st) rid = Some ps"
  proof -
    from bfsLoop_inv [OF that(1) bfsInit_inv] obtain popped where "bfsInv popped st" by blast
    then show ?thesis using prefixesOf_Some [OF that(2)] by (auto simp: bfsInv_def prefixesDistinct_def)
  qed
  have 4: "extractHonoEndpoints parseHonoFile files = Some eps \<longrightarrow>
        (\<exists>final. traversal (parseFiles parseHonoFile files) = Some final
           \<and> distinct (emissions (prefixesByRouter final)
                 (endpointsByRouter (collectGraph (parseFiles parseHonoFile files))))
           \<and> eps = map (emission (buildRouterIndex (parseFiles parseHonoFile files))
                          (endpointsByRouter (collectGraph (parseFiles parseHonoFile files))))
                      (emissions (prefixesByRouter final)
                         (endpointsByRouter (collectGraph (parseFiles parseHonoFile files)))))"
    unfolding extractHonoEndpoints_def using resolveGraph_emissions by blast
  have 5: "mountedAt (mountedAt '''' p1) q1 = c \<longrightarrow> mountedAt (mountedAt '''' p2) q2 = c \<longrightarrow>
        extractHonoEndpoints (parseDiamond (diamondOf p1 p2 q1 q2 routes)) [''/app/d.ts''] =
          Some (map (emitEndpoint (map_of diamondRouters ''/app/d.ts::child'') (joinPaths c []))
                  (map (\<lambda>e. e\<lparr>routerVar := ''child''\<rparr>) routes))"
    using diamond_emitted by blast
  show ?thesis using 1 2 3 4 5 emitRouter_recorded by blast
qed

text \<open>
  A diamond in which the two mount paths differ and give the same prefix: \<open>/a\<close> then
  \<open>/b/c\<close> on the left, \<open>/a/b\<close> then \<open>/c\<close> on the right. The child declares \<open>GET /x\<close>,
  which is emitted once, as \<open>GET /a/b/c/x\<close>.
\<close>

definition xRoute :: rawEndpoint where
  "xRoute = \<lparr>routerVar = ''child'', rawMethod = ''GET'', rawPath = ''/x'',
              rawDescription = ''GET /x'', rawParameters = Some emptyParams\<rparr>"

definition xEndpoint :: honoEndpoint where
  "xEndpoint = \<lparr>epMethod = ''GET'', epPath = ''/a/b/c/x'', epDescription = ''GET /x'',
      epParameters = emptyParams, epFilePath = Some ''/app/d.ts'', epKey = ''GET /a/b/c/x''\<rparr>"

definition diamondEnd :: bfsState where
  "diamondEnd = \<lparr>prefixesByRouter =
      [(''/app/d.ts::root'', ['''']), (''/app/d.ts::left'', [''/a'']),
       (''/app/d.ts::right'', [''/a/b'']), (''/app/d.ts::child'', [''/a/b/c''])],
     queue = []\<rparr>"

theorem bfs_never_revisits_witness:
  "mountedAt (mountedAt '''' ''/a'') ''/b/c'' = ''/a/b/c''
   \<and> mountedAt (mountedAt '''' ''/a/b'') ''/c'' = ''/a/b/c''
   \<and> extractHonoEndpoints (parseDiamond (diamondOf ''/a'' ''/a/b'' ''/b/c'' ''/c'' [xRoute])) [''/app/d.ts'']
        = Some [xEndpoint]
   \<and> bfsLoop diamondRouters (diamondEdges ''/a'' ''/a/b'' ''/b/c'' ''/c'') (bfsInit [''/app/d.ts::root''])
        = Some diamondEnd
   \<and> map_of (prefixesByRouter diamondEnd) ''/app/d.ts::child'' = Some [''/a/b/c'']
   \<and> distinct [''/a/b/c'']
   \<and> emitRouter diamondRouters (prefixesByRouter diamondEnd) (''/app/d.ts::child'', [xRoute]) = [xEndpoint]
   \<and> (\<exists>final. traversal (parseFiles (parseDiamond (diamondOf ''/a'' ''/a/b'' ''/b/c'' ''/c'' [xRoute])) [''/app/d.ts''])
          = Some final
        \<and> distinct (emissions (prefixesByRouter final)
              (endpointsByRouter (collectGraph
                 (parseFiles (parseDiamond (diamondOf ''/a'' ''/a/b'' ''/b/c'' ''/c'' [xRoute])) [''/app/d.ts'']))))
        \<and> [xEndpoint] =
             map (emission (buildRouterIndex
                    (parseFiles (parseDiamond (diamondOf ''/a'' ''/a/b'' ''/b/c'' ''/c'' [xRoute])) [''/app/d.ts'']))
                  (endpointsByRouter (collectGraph
                    (parseFiles (parseDiamond (diamondOf ''/a'' ''/a/b'' ''/b/c'' ''/c'' [xRoute])) [''/app/d.ts'']))))
               (emissions (prefixesByRouter final)
                 (endpointsByRouter (collectGraph
                   (parseFiles (parseDiamond (diamondOf ''/a'' ''/a/b'' ''/b/c'' ''/c'' [xRoute])) [''/app/d.ts''])))))"
proof -
  have a: "mountedAt (mountedAt '''' ''/a'') ''/b/c'' = ''/a/b/c''"
    "mountedAt (mountedAt '''' ''/a/b'') ''/c'' = ''/a/b/c''"
    by code_simp+
  have b: "bfsLoop diamondRouters (diamondEdges ''/a'' ''/a/b'' ''/b/c'' ''/c'') (bfsInit [''/app/d.ts::root''])
        = Some diamondEnd"
    "map_of (prefixesByRouter diamondEnd) ''/app/d.ts::child'' = Some [''/a/b/c'']"
    by code_simp+
  have c: "map (emitEndpoint (map_of diamondRouters ''/app/d.ts::child'') (joinPaths ''/a/b/c'' []))
                  (map (\<lambda>e. e\<lparr>routerVar := ''child''\<rparr>) [xRoute]) = [xEndpoint]"
    by code_simp
  have d: "concat (map (\<lambda>prefix. map (emitEndpoint (map_of diamondRouters ''/app/d.ts::child'')
              (joinPaths prefix (case map_of diamondRouters ''/app/d.ts::child'' of None \<Rightarrow> []
                                   | Some r \<Rightarrow> routerBasePath r))) [xRoute]) [''/a/b/c'']) = [xEndpoint]"
    by code_simp
  note T = bfs_never_revisits [of diamondRouters "diamondEdges ''/a'' ''/a/b'' ''/b/c'' ''/c''" 0
      "[''/app/d.ts::root'']" "''/app/d.ts::child''" "[]" diamondEnd "[''/a/b/c'']" "[xRoute]"
      "parseDiamond (diamondOf ''/a'' ''/a/b'' ''/b/c'' ''/c'' [xRoute])" "[''/app/d.ts'']" "[xEndpoint]"
      "''/a''" "''/b/c''" "''/a/b/c''" "''/a/b''" "''/c''" "[xRoute]"]
  have w1: "extractHonoEndpoints (parseDiamond (diamondOf ''/a'' ''/a/b'' ''/b/c'' ''/c'' [xRoute])) [''/app/d.ts'']
        = Some [xEndpoint]"
    using T a c by simp
  have w2: "emitRouter diamondRouters (prefixesByRouter diamondEnd) (''/app/d.ts::child'', [xRoute]) = [xEndpoint]"
    using T b d by simp
  have w3: "\<exists>final. traversal (parseFiles (parseDiamond (diamondOf ''/a'' ''/a/b'' ''/b/c'' ''/c'' [xRoute])) [''/app/d.ts''])
          = Some final
        \<and> distinct (emissions (prefixesByRouter final)
              (endpointsByRouter (collectGraph
                 (parseFiles (parseDiamond (diamondOf ''/a'' ''/a/b'' ''/b/c'' ''/c'' [xRoute])) [''/app/d.ts'']))))
        \<and> [xEndpoint] =
             map (emission (buildRouterIndex
                    (parseFiles (parseDiamond (diamondOf ''/a'' ''/a/b'' ''/b/c'' ''/c'' [xRoute])) [''/app/d.ts'']))
                  (endpointsByRouter (collectGraph
                    (parseFiles (parseDiamond (diamondOf ''/a'' ''/a/b'' ''/b/c'' ''/c'' [xRoute])) [''/app/d.ts'']))))
               (emissions (prefixesByRouter final)
                 (endpointsByRouter (collectGraph
                   (parseFiles (parseDiamond (diamondOf ''/a'' ''/a/b'' ''/b/c'' ''/c'' [xRoute])) [''/app/d.ts'']))))"
    using T w1 by blast
  show ?thesis using a b w1 w2 w3 by simp
qed


subsection \<open>A router mounted in two files\<close>

text \<open>
  What \<open>parseHonoFile\<close> returns for the two files of the scenario. File F1:
  \<^verbatim>\<open>const a = new Hono(); export const b = new Hono(); b.get('/ping', h); a.route('/v1', b)\<close>.
  File F2: \<^verbatim>\<open>import { b } from './f1'; const app = new Hono(); app.route('/legacy', b)\<close>.
\<close>

definition fileOne :: fileData where
  "fileOne = \<lparr>dataFilePath = ''/app/f1.ts'',
         dataRouters = [(''a'', ''''), (''b'', '''')],
         dataEndpoints = [\<lparr>routerVar = ''b'', rawMethod = ''GET'', rawPath = ''/ping'',
                           rawDescription = ''GET /ping'', rawParameters = Some emptyParams\<rparr>],
         dataMounts = [\<lparr>parentVar = ''a'', childIdent = ''b'', mountPrefix = ''/v1''\<rparr>],
         dataExports = \<lparr>exportDefault = None, exportNamed = [(''b'', ''b'')]\<rparr>,
         dataImports = []\<rparr>"

definition fileTwo :: fileData where
  "fileTwo = \<lparr>dataFilePath = ''/app/f2.ts'',
         dataRouters = [(''app'', '''')],
         dataEndpoints = [],
         dataMounts = [\<lparr>parentVar = ''app'', childIdent = ''b'', mountPrefix = ''/legacy''\<rparr>],
         dataExports = \<lparr>exportDefault = None, exportNamed = []\<rparr>,
         dataImports = [(''b'', \<lparr>sourceFile = ''/app/f1.ts'', importName = ''b'', isDefault = False\<rparr>)]\<rparr>"

definition parseScenario :: "string \<Rightarrow> fileData option" where
  "parseScenario f =
     (if f = ''/app/f1.ts'' then Some fileOne else if f = ''/app/f2.ts'' then Some fileTwo else None)"

definition pingAt :: "string \<Rightarrow> honoEndpoint" where
  "pingAt p = \<lparr>epMethod = ''GET'', epPath = p, epDescription = ''GET /ping'',
      epParameters = emptyParams, epFilePath = Some ''/app/f1.ts'', epKey = ''GET '' @ p\<rparr>"

text \<open>
  C1. Router \<open>b\<close> is mounted on \<open>a\<close> under \<open>/v1\<close> in F1 and, imported, on \<open>app\<close>
  under \<open>/legacy\<close> in F2, and declares \<open>GET /ping\<close>. Over the two files, in either
  order, exactly two endpoints are emitted: \<open>GET /v1/ping\<close> and \<open>GET /legacy/ping\<close>.
\<close>

theorem remount_scenario:
  "extractHonoEndpoints parseScenario [''/app/f1.ts'', ''/app/f2.ts''] =
     Some [pingAt ''/v1/ping'', pingAt ''/legacy/ping'']
   \<and> extractHonoEndpoints parseScenario [''/app/f2.ts'', ''/app/f1.ts''] =
     Some [pingAt ''/legacy/ping'', pingAt ''/v1/ping'']"
  by code_simp

subsection \<open>A router mounted on itself\<close>

text \<open>
  What \<open>parseHonoFile\<close> returns for
  \<^verbatim>\<open>const app = new Hono(); app.get('/ping', h); app.route('/x', app)\<close>:
  one router, mounted on itself under \<open>/x\<close>.
\<close>

definition selfFile :: fileData where
  "selfFile = \<lparr>dataFilePath = ''/app/self.ts'',
         dataRouters = [(''app'', '''')],
         dataEndpoints = [\<lparr>routerVar = ''app'', rawMethod = ''GET'', rawPath = ''/ping'',
                           rawDescription = ''GET /ping'', rawParameters = Some emptyParams\<rparr>],
         dataMounts = [\<lparr>parentVar = ''app'', childIdent = ''app'', mountPrefix = ''/x''\<rparr>],
         dataExports = \<lparr>exportDefault = None, exportNamed = []\<rparr>,
         dataImports = []\<rparr>"

definition parseSelf :: "string \<Rightarrow> fileData option" where
  "parseSelf f = (if f = ''/app/self.ts'' then Some selfFile else None)"

definition selfRouters :: "(string \<times> routerInfo) list" where
  "selfRouters = [(''/app/self.ts::app'',
      \<lparr>routerFilePath = ''/app/self.ts'', routerVarName = ''app'', routerBasePath = ''''\<rparr>)]"

definition selfEdges :: "(string \<times> edge list) list" where
  "selfEdges = [(''/app/self.ts::app'', [\<lparr>childId = ''/app/self.ts::app'', edgePrefix = ''/x''\<rparr>])]"

definition growing :: "bfsState \<Rightarrow> bool" where
  "growing st = (\<exists>p. queue st = [(''/app/self.ts::app'', p)] \<and> (p = [] \<or> properPath p)
     \<and> (\<forall>q\<in>set (prefixesOf st ''/app/self.ts::app''). length q \<le> length p))"

lemma properPath_x: "properPath ''/x''"
  unfolding properPath_def wellFormedPath_def by code_simp

lemma selfStep_prefix:
  assumes "p = [] \<or> properPath p"
  shows "joinPaths (joinPaths p []) ''/x'' = p @ ''/x''"
proof (cases "p = []")
  case True
  have "joinPaths (joinPaths [] []) ''/x'' = ''/x''" by code_simp
  then show ?thesis using True by simp
next
  case False
  then have pp: "properPath p" using assms by simp
  show ?thesis using joinPaths_empty_right [OF pp] joinPaths_append [OF pp properPath_x] by simp
qed

lemma growing_step:
  assumes "growing st"
  shows "growing (bfsStep selfRouters selfEdges st)"
proof -
  let ?rid = "''/app/self.ts::app''"
  from assms obtain p where q: "queue st = [(?rid, p)]" and p: "p = [] \<or> properPath p"
    and le: "\<forall>q\<in>set (prefixesOf st ?rid). length q \<le> length p"
    by (auto simp: growing_def)
  let ?p' = "p @ ''/x''"
  let ?st0 = "st\<lparr>queue := []\<rparr>"
  have step: "bfsStep selfRouters selfEdges st = enqueue ?rid ?p' ?st0"
    using selfStep_prefix [OF p] by (simp add: bfsStep_def q selfRouters_def selfEdges_def)
  have pre0: "prefixesOf ?st0 ?rid = prefixesOf st ?rid" by (simp add: prefixesOf_def)
  have "?p' \<notin> set (prefixesOf ?st0 ?rid)"
    unfolding pre0 using le by auto
  then have fresh: "(?rid, ?p') \<notin> recorded ?st0" by (simp add: recorded_prefixesOf)
  have eq: "enqueue ?rid ?p' ?st0 =
     \<lparr>prefixesByRouter = mapSet ?rid (prefixesOf st ?rid @ [?p']) (prefixesByRouter st),
      queue = [(?rid, ?p')]\<rparr>"
    using enqueue_fresh [OF fresh] by (simp add: pre0)
  have pp: "properPath ?p'"
  proof (cases "p = []")
    case True
    then show ?thesis using properPath_x by simp
  next
    case False
    then show ?thesis using p properPath_x by (simp add: properPath_append)
  qed
  have "\<forall>q\<in>set (prefixesOf (enqueue ?rid ?p' ?st0) ?rid). length q \<le> length ?p'"
    unfolding eq prefixesOf_mapSet using le by auto
  then show ?thesis unfolding step growing_def using pp eq by simp
qed

lemma growing_never_returns:
  assumes "bfsLoop selfRouters selfEdges st = Some st'"
  shows "\<not> growing st"
proof -
  have "selfRouters = selfRouters \<and> selfEdges = selfEdges \<longrightarrow> \<not> growing st"
  proof (rule bfsLoop.raw_induct
      [where P = "\<lambda>r e s s'. r = selfRouters \<and> e = selfEdges \<longrightarrow> \<not> growing s"])
    show "bfsLoop selfRouters selfEdges st = Some st'" by fact
  next
    fix f r e s s'
    assume IH: "\<And>e s b y. f e s b = Some y \<Longrightarrow> e = selfRouters \<and> s = selfEdges \<longrightarrow> \<not> growing b"
      and eq: "(if queue s = [] then Some s else f r e (bfsStep r e s)) = Some s'"
    show "r = selfRouters \<and> e = selfEdges \<longrightarrow> \<not> growing s"
    proof (intro impI notI)
      assume re: "r = selfRouters \<and> e = selfEdges" and g: "growing s"
      then have "queue s \<noteq> []" by (auto simp: growing_def)
      then have "f r e (bfsStep r e s) = Some s'" using eq by simp
      from IH [OF this] re have "\<not> growing (bfsStep selfRouters selfEdges s)" by simp
      then show False using growing_step [OF g] by simp
    qed
  qed
  then show ?thesis by simp
qed

lemma startIds_roots:
  "startIds routerIds hasParent =
     (if \<exists>rid\<in>set routerIds. rid \<notin> set hasParent
      then filter (\<lambda>rid. rid \<notin> set hasParent) routerIds else routerIds)"
  by (auto simp: startIds_def Let_def filter_empty_conv)

lemma selfMount_start:
  "parseFiles parseSelf [''/app/self.ts''] = [(''/app/self.ts'', selfFile)]"
  "buildRouterIndex [(''/app/self.ts'', selfFile)] = selfRouters"
  "edges (collectGraph [(''/app/self.ts'', selfFile)]) = selfEdges"
  "startIds (map fst selfRouters) (childHasParent (collectGraph [(''/app/self.ts'', selfFile)])) = [''/app/self.ts::app'']"
  "bfsInit [''/app/self.ts::app''] = \<lparr>prefixesByRouter = [(''/app/self.ts::app'', [''''])], queue = [(''/app/self.ts::app'', '''')]\<rparr>"
  by code_simp+

text \<open>
  C8. Every router of this graph has an incoming mount edge, so every router is a start
  node. The traversal then enqueues \<open>/x\<close>, \<open>/x/x\<close>, \<open>/x/x/x\<close> and so on for the
  same router: each prefix is new, the queue never empties, and the resolver does
  not return.
\<close>

theorem selfMount_diverges: "extractHonoEndpoints parseSelf [''/app/self.ts''] = None"
proof -
  let ?st0 = "\<lparr>prefixesByRouter = [(''/app/self.ts::app'', [''''])], queue = [(''/app/self.ts::app'', '''')]\<rparr>"
  have "growing ?st0" by (simp add: growing_def prefixesOf_def)
  then have "bfsLoop selfRouters selfEdges ?st0 = None"
    using growing_never_returns [of ?st0] by (cases "bfsLoop selfRouters selfEdges ?st0") auto
  then show ?thesis
    by (simp add: extractHonoEndpoints_def resolveGraph_def Let_def selfMount_start)
qed

section \<open>Depth caps, cyclic definitions and unresolved references\<close>

text \<open>
  A schema-builder binding that refers to itself:
  \<^verbatim>\<open>const tree = z.object({ children: z.array(tree) })\<close>.
\<close>

definition treeDefs :: "(string \<times> node) list" where
  "treeDefs =
     [(''tree'', CallExpression (MemberExpression (Identifier ''z'') (Identifier ''object''))
        [ObjectExpression [ObjectProperty (Identifier ''children'')
           (CallExpression (MemberExpression (Identifier ''z'') (Identifier ''array'')) [Identifier ''tree''])]])]"

definition treeLevel :: "zschema \<Rightarrow> zschema" where
  "treeLevel children =
     ZSchema ''object'' (Some [(''children'', children)]) (Some [''children'']) None None False"

definition arrayOf :: "zschema \<Rightarrow> zschema" where
  "arrayOf items = ZSchema ''array'' None None (Some items) None False"

text \<open>
  Two DTO maps with cycles: \<^verbatim>\<open>class Node { next: Node }\<close>, and
  \<^verbatim>\<open>class A { b: B }  class B { a?: A }\<close>.
\<close>

definition refTo :: "string \<Rightarrow> tsType option" where
  "refTo n = Some (TSTypeReference (TypeIdentifier n) None)"

definition plainProp :: "string \<Rightarrow> bool \<Rightarrow> tsType option \<Rightarrow> dtoProp" where
  "plainProp n opt t =
     \<lparr>propName = n, propOptional = opt, propTypeNode = t, propExample = None, propOverrideType = None\<rparr>"


definition pairDto :: dtoMap where
  "pairDto = [(''A'', \<lparr>dtoDefName = ''A'', dtoProps = [plainProp ''b'' False (refTo ''B'')]\<rparr>),
              (''B'', \<lparr>dtoDefName = ''B'', dtoProps = [plainProp ''a'' True (refTo ''A'')]\<rparr>)]"

text \<open>
  C3, as amended. Up to depth 10 the schema-builder resolver goes on: a bound identifier
  resolves as its definition does one level deeper, a modifier call as the object it is
  called on does one level deeper, and \<open>z.number()\<close> resolves to \<open>number\<close>. Beyond depth 10
  every node resolves to a \<open>string\<close> node without properties (not to an \<open>object\<close> node).
  At depth 0 and 1 a reference to a DTO of the DTO map resolves as \<open>buildSchemaForDto\<close>
  does one level deeper. From depth 2 on, resolving a type node looks no DTO up: the memo
  is unchanged and the result holds no DTO object; a reference to a DTO resolves to the
  placeholder without properties, whose type is \<open>object\<close> unless a type decorator on the
  member forces another type.
\<close>

theorem depth_cap_results:
  "(depth \<le> 10 \<longrightarrow> schemaDefs name = Some init \<longrightarrow>
      resolveZodSchema (Some (Identifier name)) schemaDefs depth =
        resolveZodSchema (Some init) schemaDefs (depth + 1))
   \<and> (depth \<le> 10 \<longrightarrow> modifier m \<longrightarrow>
      resolveZodSchema (Some (CallExpression (MemberExpression object (Identifier m)) arguments)) schemaDefs depth =
        resolveZodSchema (Some object) schemaDefs (depth + 1))
   \<and> (depth \<le> 10 \<longrightarrow>
      resolveZodSchema (Some (CallExpression (MemberExpression object (Identifier ''number'')) arguments))
        schemaDefs depth = zPrim ''number'')
   \<and> (10 < depth' \<longrightarrow> resolveZodSchema node schemaDefs depth' = zPrim ''string'')
   \<and> (d < 2 \<longrightarrow> map_of dtoMap dtoName \<noteq> None \<longrightarrow> arrayParam dtoName typeParameters = None \<longrightarrow>
      schemaFromTypeNode (Some (TSTypeReference (TypeIdentifier dtoName) typeParameters)) dtoMap d memo meta =
        buildSchemaForDto dtoName dtoMap (d + 1) memo)
   \<and> (2 \<le> d' \<longrightarrow>
         snd (schemaFromTypeNode typeNode dtoMap d' memo meta) = memo \<and>
         pureSchema (fst (schemaFromTypeNode typeNode dtoMap d' memo meta)))
   \<and> (2 \<le> d' \<longrightarrow> arrayParam dtoName typeParameters = None \<longrightarrow>
         schemaFromTypeNode (Some (TSTypeReference (TypeIdentifier dtoName) typeParameters))
           dtoMap d' memo meta = (metaFallback meta, memo))
   \<and> metaFallback None = SNode ''object'' None
   \<and> (\<not> truthy (propOverrideType prop) \<longrightarrow> metaFallback (Some prop) = SNode ''object'' (propExample prop))
   \<and> (truthy (propOverrideType prop) \<longrightarrow>
         metaFallback (Some prop) = SNode (the (propOverrideType prop)) (propExample prop))"
proof -
  have 1: "depth \<le> 10 \<longrightarrow> schemaDefs name = Some init \<longrightarrow>
      resolveZodSchema (Some (Identifier name)) schemaDefs depth =
        resolveZodSchema (Some init) schemaDefs (depth + 1)"
    using resolveZodSchema_bound by blast
  have 2: "depth \<le> 10 \<longrightarrow> modifier m \<longrightarrow>
      resolveZodSchema (Some (CallExpression (MemberExpression object (Identifier m)) arguments)) schemaDefs depth =
        resolveZodSchema (Some object) schemaDefs (depth + 1)"
    using resolveZodSchema_modifier by blast
  have 3: "depth \<le> 10 \<longrightarrow>
      resolveZodSchema (Some (CallExpression (MemberExpression object (Identifier ''number'')) arguments))
        schemaDefs depth = zPrim ''number''"
    using resolveZodSchema_primitive by blast
  have 4: "10 < depth' \<longrightarrow> resolveZodSchema node schemaDefs depth' = zPrim ''string''"
    using resolveZodSchema_over_cap by blast
  have 5: "d < 2 \<longrightarrow> map_of dtoMap dtoName \<noteq> None \<longrightarrow> arrayParam dtoName typeParameters = None \<longrightarrow>
      schemaFromTypeNode (Some (TSTypeReference (TypeIdentifier dtoName) typeParameters)) dtoMap d memo meta =
        buildSchemaForDto dtoName dtoMap (d + 1) memo"
    using sfT_Ref_dto by blast
  have 6: "2 \<le> d' \<longrightarrow>
         snd (schemaFromTypeNode typeNode dtoMap d' memo meta) = memo \<and>
         pureSchema (fst (schemaFromTypeNode typeNode dtoMap d' memo meta))"
    using deep_pure_aux(1) [of d' typeNode dtoMap memo meta] by blast
  have 7: "2 \<le> d' \<longrightarrow> arrayParam dtoName typeParameters = None \<longrightarrow>
         schemaFromTypeNode (Some (TSTypeReference (TypeIdentifier dtoName) typeParameters))
           dtoMap d' memo meta = (metaFallback meta, memo)"
    using sfT_Ref_fallback [of dtoName typeParameters dtoMap d' memo meta] by blast
  have 8: "metaFallback None = SNode ''object'' None
   \<and> (\<not> truthy (propOverrideType prop) \<longrightarrow> metaFallback (Some prop) = SNode ''object'' (propExample prop))
   \<and> (truthy (propOverrideType prop) \<longrightarrow>
         metaFallback (Some prop) = SNode (the (propOverrideType prop)) (propExample prop))"
    by (simp add: metaFallback_def)
  show ?thesis using 1 2 3 4 5 6 7 8 by blast
qed

text \<open>
  At depth 10 \<open>z.number()\<close> still resolves to \<open>number\<close>, and \<open>z.number().min()\<close> does so at
  depth 9 and no longer at depth 10. At depth 1 the reference to \<open>B\<close> is looked up, at
  depth 2 it is not.
\<close>

definition numberCall :: node where
  "numberCall = CallExpression (MemberExpression (Identifier ''z'') (Identifier ''number'')) []"

theorem depth_cap_results_witness:
  "(10::nat) \<le> 10 \<and> map_of treeDefs ''tree'' \<noteq> None \<and> modifier ''min''
   \<and> resolveZodSchema (Some (Identifier ''tree'')) (map_of treeDefs) 10 = zPrim ''string''
   \<and> resolveZodSchema (Some (chainOf [''min''] numberCall)) (map_of treeDefs) 10 = zPrim ''string''
   \<and> resolveZodSchema (Some (chainOf [''min''] numberCall)) (map_of treeDefs) 9 = zPrim ''number''
   \<and> resolveZodSchema (Some numberCall) (map_of treeDefs) 10 = zPrim ''number''
   \<and> (10::nat) < 11 \<and> resolveZodSchema (Some numberCall) (map_of treeDefs) 11 = zPrim ''string''
   \<and> (1::nat) < 2 \<and> map_of pairDto ''B'' \<noteq> None \<and> arrayParam ''B'' None = None
   \<and> schemaFromTypeNode (refTo ''B'') pairDto 1 [] None =
        (SDtoRef ''B'', [(''B'', \<lparr>objProperties = [(''a'', SNode ''object'' None)], objRequired = None\<rparr>)])
   \<and> (2::nat) \<le> 2
   \<and> schemaFromTypeNode (refTo ''B'') pairDto 2 [] None = (SNode ''object'' None, [])
   \<and> \<not> truthy (propOverrideType (plainProp ''b'' False (refTo ''B'')))
   \<and> metaFallback (Some (plainProp ''b'' False (refTo ''B''))) = SNode ''object'' None"
proof -
  have a: "map_of treeDefs ''tree'' \<noteq> None" "modifier ''min''" "arrayParam ''B'' None = None"
    "map_of pairDto ''B'' \<noteq> None" "\<not> truthy (propOverrideType (plainProp ''b'' False (refTo ''B'')))"
    by code_simp+
  have b: "resolveZodSchema (Some (Identifier ''tree'')) (map_of treeDefs) 10 = zPrim ''string''"
    "resolveZodSchema (Some (chainOf [''min''] numberCall)) (map_of treeDefs) 10 = zPrim ''string''"
    "resolveZodSchema (Some (chainOf [''min''] numberCall)) (map_of treeDefs) 9 = zPrim ''number''"
    by code_simp+
  have c: "propExample (plainProp ''b'' False (refTo ''B'')) = None" by code_simp
  have d: "buildSchemaForDto ''B'' pairDto (Suc (Suc 0)) [] =
        (SDtoRef ''B'', [(''B'', \<lparr>objProperties = [(''a'', SNode ''object'' None)], objRequired = None\<rparr>)])"
    by code_simp
  from depth_cap_results [of 10 "map_of treeDefs" "''tree''" "the (map_of treeDefs ''tree'')" "''min''"
      "Identifier ''z''" "[]" 11 "Some numberCall" 1 pairDto "''B''" None "[]" None 2 "refTo ''B''"
      "plainProp ''b'' False (refTo ''B'')"] a b c d
  show ?thesis by (simp add: refTo_def numberCall_def)
qed


text \<open>
  The self-referring binding above is unfolded until depth 11, where the innermost
  \<open>children\<close> resolves to a \<open>string\<close> node.
\<close>

theorem zod_cap_is_string:
  "resolveZodSchema (Some (Identifier ''tree'')) (map_of treeDefs) 0 =
     treeLevel (arrayOf (treeLevel (arrayOf (treeLevel (arrayOf (treeLevel (zPrim ''string'')))))))
   \<and> ztype (resolveZodSchema
        (Some (CallExpression (MemberExpression (Identifier ''z'') (Identifier ''array'')) [Identifier ''tree'']))
        (map_of treeDefs) 11) \<noteq> ''object''"
  by code_simp




text \<open>
  A file with a root router and two routers that mount each other and are not reachable
  from the root: \<^verbatim>\<open>a.get('/ping', h); a.route('/b', b); b.route('/a', a)\<close>.
\<close>

definition islandFile :: fileData where
  "islandFile = \<lparr>dataFilePath = ''/app/i.ts'',
         dataRouters = [(''root'', ''''), (''a'', ''''), (''b'', '''')],
         dataEndpoints = [\<lparr>routerVar = ''a'', rawMethod = ''GET'', rawPath = ''/ping'',
                           rawDescription = ''GET /ping'', rawParameters = Some emptyParams\<rparr>],
         dataMounts = [\<lparr>parentVar = ''a'', childIdent = ''b'', mountPrefix = ''/b''\<rparr>,
                       \<lparr>parentVar = ''b'', childIdent = ''a'', mountPrefix = ''/a''\<rparr>],
         dataExports = \<lparr>exportDefault = None, exportNamed = []\<rparr>,
         dataImports = []\<rparr>"

definition islandRouters :: "(string \<times> routerInfo) list" where
  "islandRouters = buildRouterIndex [(''/app/i.ts'', islandFile)]"

text \<open>
  Eleven modifier calls, outermost first, and the parse result of the file above.
\<close>

definition elevenModifiers :: "string list" where
  "elevenModifiers = [''min'', ''max'', ''email'', ''trim'', ''url'', ''uuid'', ''regex'', ''nullable'',
      ''describe'', ''default'', ''nonempty'']"

lemma unrecorded_emitted:
  assumes "resolveGraph fileDataMap = Some eps" "traversal fileDataMap = Some st"
    "(rid, list) \<in> set (endpointsByRouter (collectGraph fileDataMap))"
    "map_of (prefixesByRouter st) rid = None"
  shows "set (map (emitEndpoint (map_of (buildRouterIndex fileDataMap) rid)
            (joinPaths '''' (case map_of (buildRouterIndex fileDataMap) rid of None \<Rightarrow> ''''
                            | Some r \<Rightarrow> routerBasePath r))) list) \<subseteq> set eps"
proof -
  have eps: "eps = concat (map (emitRouter (buildRouterIndex fileDataMap) (prefixesByRouter st))
                 (endpointsByRouter (collectGraph fileDataMap)))"
    using assms(1,2) by (auto simp: resolveGraph_def traversal_def Let_def split: option.splits)
  have "set (emitRouter (buildRouterIndex fileDataMap) (prefixesByRouter st) (rid, list)) \<subseteq> set eps"
    unfolding eps using assms(3) by auto
  then show ?thesis unfolding emitRouter_unrecorded [OF assms(4)] .
qed

definition parseIsland :: "string \<Rightarrow> fileData option" where
  "parseIsland f = (if f = ''/app/i.ts'' then Some islandFile else None)"

definition islandFinal :: bfsState where
  "islandFinal = \<lparr>prefixesByRouter = [(''/app/i.ts::root'', [''''])], queue = []\<rparr>"

definition islandPing :: honoEndpoint where
  "islandPing = \<lparr>epMethod = ''GET'', epPath = ''/ping'', epDescription = ''GET /ping'',
      epParameters = emptyParams, epFilePath = Some ''/app/i.ts'', epKey = ''GET /ping''\<rparr>"

text \<open>
  C10, as amended. A schema-builder identifier that is not bound, reached under a chain
  of modifier calls, resolves to an \<open>object\<close> node when the identifier is reached at
  depth 10 or less, and to a \<open>string\<close> node when it is reached deeper: the depth guard
  comes before the look-up. A DTO name that the DTO map lacks resolves to an \<open>object\<close>
  node and leaves the memo as it is, for the fresh memo and for every memo with names of
  the DTO map only, as are all memos that the resolvers build from such a memo. A router
  for which the traversal recorded no prefix is emitted with the empty prefix alone, one
  endpoint for each of its routes, and these endpoints are in the resolver's result.
\<close>

theorem unresolved_fallbacks:
  "(schemaDefs name = None \<longrightarrow> list_all modifier ms \<longrightarrow>
      resolveZodSchema (Some (chainOf ms (Identifier name))) schemaDefs depth =
        (if depth + length ms \<le> 10 then zPrim ''object'' else zPrim ''string''))
   \<and> (map_of dtoMap dtoName = None \<longrightarrow>
      buildSchemaForDto dtoName dtoMap depth' [] = (SNode ''object'' None, []))
   \<and> (map_of dtoMap dtoName = None \<longrightarrow> memoWithin dtoMap memo \<longrightarrow>
      buildSchemaForDto dtoName dtoMap depth' memo = (SNode ''object'' None, memo))
   \<and> (memoWithin dtoMap memo \<longrightarrow>
      memoWithin dtoMap (snd (schemaFromTypeNode typeNode dtoMap d memo meta)) \<and>
      memoWithin dtoMap (snd (buildSchemaForDto dtoName' dtoMap d memo)))
   \<and> (map_of prefixes rid = None \<longrightarrow>
      emitRouter routers prefixes (rid, list) =
        map (emitEndpoint (map_of routers rid)
          (joinPaths '''' (case map_of routers rid of None \<Rightarrow> '''' | Some r \<Rightarrow> routerBasePath r))) list)
   \<and> (extractHonoEndpoints parseHonoFile files = Some eps \<longrightarrow>
      traversal (parseFiles parseHonoFile files) = Some st \<longrightarrow>
      (rid, list) \<in> set (endpointsByRouter (collectGraph (parseFiles parseHonoFile files))) \<longrightarrow>
      map_of (prefixesByRouter st) rid = None \<longrightarrow>
      set (map (emitEndpoint (map_of (buildRouterIndex (parseFiles parseHonoFile files)) rid)
            (joinPaths '''' (case map_of (buildRouterIndex (parseFiles parseHonoFile files)) rid of
                             None \<Rightarrow> '''' | Some r \<Rightarrow> routerBasePath r))) list) \<subseteq> set eps)"
proof -
  have 1: "schemaDefs name = None \<longrightarrow> list_all modifier ms \<longrightarrow>
      resolveZodSchema (Some (chainOf ms (Identifier name))) schemaDefs depth =
        (if depth + length ms \<le> 10 then zPrim ''object'' else zPrim ''string'')"
    using resolveZodSchema_chain by blast
  have 2: "map_of dtoMap dtoName = None \<longrightarrow>
      buildSchemaForDto dtoName dtoMap depth' [] = (SNode ''object'' None, [])"
    using build_unknown [of dtoMap "[]"] by simp
  have 3: "map_of dtoMap dtoName = None \<longrightarrow> memoWithin dtoMap memo \<longrightarrow>
      buildSchemaForDto dtoName dtoMap depth' memo = (SNode ''object'' None, memo)"
    using build_unknown by blast
  have 4: "memoWithin dtoMap memo \<longrightarrow>
      memoWithin dtoMap (snd (schemaFromTypeNode typeNode dtoMap d memo meta)) \<and>
      memoWithin dtoMap (snd (buildSchemaForDto dtoName' dtoMap d memo))"
    using memoWithin_kept(1,3) by blast
  have 5: "map_of prefixes rid = None \<longrightarrow>
      emitRouter routers prefixes (rid, list) =
        map (emitEndpoint (map_of routers rid)
          (joinPaths '''' (case map_of routers rid of None \<Rightarrow> '''' | Some r \<Rightarrow> routerBasePath r))) list"
    using emitRouter_unrecorded by blast
  have 6: "extractHonoEndpoints parseHonoFile files = Some eps \<longrightarrow>
      traversal (parseFiles parseHonoFile files) = Some st \<longrightarrow>
      (rid, list) \<in> set (endpointsByRouter (collectGraph (parseFiles parseHonoFile files))) \<longrightarrow>
      map_of (prefixesByRouter st) rid = None \<longrightarrow>
      set (map (emitEndpoint (map_of (buildRouterIndex (parseFiles parseHonoFile files)) rid)
            (joinPaths '''' (case map_of (buildRouterIndex (parseFiles parseHonoFile files)) rid of
                             None \<Rightarrow> '''' | Some r \<Rightarrow> routerBasePath r))) list) \<subseteq> set eps"
    unfolding extractHonoEndpoints_def using unrecorded_emitted by blast
  show ?thesis using 1 2 3 4 5 6 by blast
qed

theorem unresolved_fallbacks_witness:
  "Map.empty ''userSchema'' = (None :: node option) \<and> list_all modifier (tl elevenModifiers)
   \<and> resolveZodSchema (Some (chainOf (tl elevenModifiers) (Identifier ''userSchema''))) Map.empty 0 = zPrim ''object''
   \<and> resolveZodSchema (Some (Identifier ''userSchema'')) Map.empty 0 = zPrim ''object''
   \<and> map_of pairDto ''UserDto'' = None
   \<and> buildSchemaForDto ''UserDto'' pairDto 0 [] = (SNode ''object'' None, [])
   \<and> memoWithin pairDto (snd (buildSchemaForDto ''A'' pairDto 0 []))
   \<and> buildSchemaForDto ''UserDto'' pairDto 1 (snd (buildSchemaForDto ''A'' pairDto 0 [])) =
        (SNode ''object'' None, snd (buildSchemaForDto ''A'' pairDto 0 []))
   \<and> extractHonoEndpoints parseIsland [''/app/i.ts''] = Some [islandPing]
   \<and> traversal (parseFiles parseIsland [''/app/i.ts'']) = Some islandFinal
   \<and> (''/app/i.ts::a'', dataEndpoints islandFile)
        \<in> set (endpointsByRouter (collectGraph (parseFiles parseIsland [''/app/i.ts''])))
   \<and> map_of (prefixesByRouter islandFinal) ''/app/i.ts::a'' = None
   \<and> emitRouter islandRouters (prefixesByRouter islandFinal) (''/app/i.ts::a'', dataEndpoints islandFile)
        = [islandPing]"
proof -
  have a: "list_all modifier (tl elevenModifiers)" "length (tl elevenModifiers) = 10"
    "map_of pairDto ''UserDto'' = None"
    by code_simp+
  have b: "extractHonoEndpoints parseIsland [''/app/i.ts''] = Some [islandPing]"
    "traversal (parseFiles parseIsland [''/app/i.ts'']) = Some islandFinal"
    "(''/app/i.ts::a'', dataEndpoints islandFile)
        \<in> set (endpointsByRouter (collectGraph (parseFiles parseIsland [''/app/i.ts''])))"
    "map_of (prefixesByRouter islandFinal) ''/app/i.ts::a'' = None"
    by code_simp+
  have c: "map (emitEndpoint (map_of islandRouters ''/app/i.ts::a'')
          (joinPaths '''' (case map_of islandRouters ''/app/i.ts::a'' of None \<Rightarrow> '''' | Some r \<Rightarrow> routerBasePath r)))
          (dataEndpoints islandFile) = [islandPing]"
    by code_simp
  note T = unresolved_fallbacks [of Map.empty "''userSchema''" "tl elevenModifiers" 0 pairDto "''UserDto''" 1
      "snd (buildSchemaForDto ''A'' pairDto 0 [])" None 0 None "''A''"
      "prefixesByRouter islandFinal" "''/app/i.ts::a''" islandRouters "dataEndpoints islandFile"
      parseIsland "[''/app/i.ts'']" "[islandPing]" islandFinal]
  note U = unresolved_fallbacks [of Map.empty "''userSchema''" "[]" 0 pairDto "''UserDto''" 0
      "[]" None 0 None "''A''"
      "prefixesByRouter islandFinal" "''/app/i.ts::a''" islandRouters "dataEndpoints islandFile"
      parseIsland "[''/app/i.ts'']" "[islandPing]" islandFinal]
  have w1: "resolveZodSchema (Some (chainOf (tl elevenModifiers) (Identifier ''userSchema''))) Map.empty 0 = zPrim ''object''"
    using T a(1,2) by simp
  have w2: "resolveZodSchema (Some (Identifier ''userSchema'')) Map.empty 0 = zPrim ''object''"
    using U by simp
  have w3: "buildSchemaForDto ''UserDto'' pairDto 0 [] = (SNode ''object'' None, [])"
    using U a(3) by blast
  have w4: "memoWithin pairDto (snd (buildSchemaForDto ''A'' pairDto 0 []))"
    using U by simp
  have w5: "buildSchemaForDto ''UserDto'' pairDto 1 (snd (buildSchemaForDto ''A'' pairDto 0 [])) =
        (SNode ''object'' None, snd (buildSchemaForDto ''A'' pairDto 0 []))"
    using T a(3) w4 by blast
  have w6: "emitRouter islandRouters (prefixesByRouter islandFinal) (''/app/i.ts::a'', dataEndpoints islandFile)
        = [islandPing]"
    using T b(4) c by simp
  show ?thesis using a b w1 w2 w3 w4 w5 w6 by simp
qed

text \<open>
  A top-level reference to the unbound \<open>userSchema\<close> under eleven modifier calls,
  \<^verbatim>\<open>userSchema.nonempty().default().describe()\<close> and so on up to \<^verbatim>\<open>.min()\<close>: the
  identifier is reached at depth 11 and resolves to \<open>string\<close>, not to \<open>object\<close>.
\<close>

theorem unbound_beyond_cap_is_string:
  "resolveZodSchema (Some (chainOf elevenModifiers (Identifier ''userSchema''))) Map.empty 0 = zPrim ''string''
   \<and> zPrim ''string'' \<noteq> zPrim ''object''"
  by code_simp


section \<open>Decorator-style extraction (extractNestJsEndpoints)\<close>

text \<open>
  The class declarations of a file, as the parser gives them. A decorator is modelled by
  its expression. A formal parameter carries its decorators (absent, or a list), its type
  annotation, and, for a parameter with a default value, the pattern on the left. A class
  property that holds an arrow function or a function expression carries the function's
  parameters.
\<close>

datatype param =
  Param (paramDecorators: "node list option") (paramTypeAnnotation: "tsType option")
    (paramLeft: "param option")

datatype memberValue = NoValue | FunctionValue "param list" | OtherValue

datatype classMember =
    ClassMethod "node list" "param list"
  | ClassProperty node memberValue "node list" bool "tsType option"
  | OtherClassMember

record classDeclaration =
  classId :: "string option"
  classDecorators :: "node list"
  classBody :: "classMember list"

definition HTTP_DECORATORS :: "(string \<times> string) list" where
  "HTTP_DECORATORS =
     [(''Get'', ''GET''), (''Post'', ''POST''), (''Put'', ''PUT''), (''Patch'', ''PATCH''),
      (''Delete'', ''DELETE''), (''Options'', ''OPTIONS''), (''Head'', ''HEAD'')]"

text \<open>
  \<open>HTTP_DECORATORS\<close> is a plain object, so \<open>HTTP_DECORATORS[name]\<close> also finds the
  members it inherits from \<open>Object.prototype\<close>; such a value is truthy and is no string.
\<close>

definition objectPrototypeKeys :: "string list" where
  "objectPrototypeKeys =
     [''constructor'', ''__defineGetter__'', ''__defineSetter__'', ''hasOwnProperty'',
      ''__lookupGetter__'', ''__lookupSetter__'', ''isPrototypeOf'', ''propertyIsEnumerable'',
      ''toString'', ''valueOf'', ''__proto__'', ''toLocaleString'']"

definition OPTIONAL_DECORATORS :: "string list" where
  "OPTIONAL_DECORATORS = [''IsOptional'', ''ApiPropertyOptional'']"

definition TYPE_DECORATORS :: "(string \<times> string) list" where
  "TYPE_DECORATORS =
     [(''IsString'', ''string''), (''IsEmail'', ''string''), (''IsUUID'', ''string''),
      (''IsInt'', ''number''), (''IsNumber'', ''number''), (''Min'', ''number''),
      (''Max'', ''number''), (''IsBoolean'', ''boolean'')]"

fun getDecoratorName :: "node \<Rightarrow> string option" where
  "getDecoratorName (CallExpression (Identifier name) args) = Some name"
| "getDecoratorName (Identifier name) = Some name"
| "getDecoratorName _ = None"

fun getDecoratorArgs :: "node \<Rightarrow> node list" where
  "getDecoratorArgs (CallExpression callee args) = args"
| "getDecoratorArgs _ = []"

fun getStringArg :: "node \<Rightarrow> string" where
  "getStringArg dec =
     (case getDecoratorArgs dec of
        StringLiteral v # _ \<Rightarrow> v
      | TemplateLiteral [cooked] # _ \<Rightarrow> (case cooked of None \<Rightarrow> '''' | Some v \<Rightarrow> v)
      | _ \<Rightarrow> '''')"

definition getTagsFromDecorator :: "node \<Rightarrow> string list" where
  "getTagsFromDecorator dec =
     concat (map (\<lambda>arg. case arg of StringLiteral v \<Rightarrow> [v] | _ \<Rightarrow> []) (getDecoratorArgs dec))"

fun findSummary :: "objectMember list \<Rightarrow> string option" where
  "findSummary [] = None"
| "findSummary (ObjectProperty (Identifier k) (StringLiteral v) # props) =
     (if k = ''summary'' then Some v else findSummary props)"
| "findSummary (_ # props) = findSummary props"

definition getSummaryFromDecorator :: "node \<Rightarrow> string option" where
  "getSummaryFromDecorator dec =
     (case getDecoratorArgs dec of
        ObjectExpression props # _ \<Rightarrow> findSummary props
      | _ \<Rightarrow> None)"

definition getDecoratorObjectArg :: "node \<Rightarrow> objectMember list option" where
  "getDecoratorObjectArg dec =
     (case getDecoratorArgs dec of
        ObjectExpression props # _ \<Rightarrow> Some props
      | _ \<Rightarrow> None)"

definition lowerChar :: "char \<Rightarrow> char" where
  "lowerChar c =
     (let n = (of_char c :: nat) in if 65 \<le> n \<and> n \<le> 90 then char_of (n + 32) else c)"

definition toLowerCase :: "string \<Rightarrow> string" where
  "toLowerCase s = map lowerChar s"

record propMeta =
  metaOptional :: bool
  metaExampleValue :: "jsvalue option"
  metaOverrideType :: "string option"

fun literalValue :: "node \<Rightarrow> jsvalue option" where
  "literalValue (StringLiteral v) = Some (VString v)"
| "literalValue (NumericLiteral v) = Some (VNumber v)"
| "literalValue (BooleanLiteral v) = Some (VBool v)"
| "literalValue _ = None"

fun apiPropertyOption :: "propMeta \<Rightarrow> objectMember \<Rightarrow> propMeta" where
  "apiPropertyOption m (ObjectProperty (Identifier k) val) =
     (let m1 = (if k = ''required'' \<and> val = BooleanLiteral False then m\<lparr>metaOptional := True\<rparr> else m);
          m2 = (if k = ''example'' \<and> literalValue val \<noteq> None
                then m1\<lparr>metaExampleValue := literalValue val\<rparr> else m1)
      in case val of
           Identifier t \<Rightarrow> if k = ''type'' then m2\<lparr>metaOverrideType := Some (toLowerCase t)\<rparr> else m2
         | _ \<Rightarrow> m2)"
| "apiPropertyOption m _ = m"

definition propDecorator :: "propMeta \<Rightarrow> node \<Rightarrow> propMeta" where
  "propDecorator m dec =
     (case getDecoratorName dec of
        None \<Rightarrow> m
      | Some name \<Rightarrow>
          if name = [] then m
          else
            (let m1 = (if name \<in> set OPTIONAL_DECORATORS then m\<lparr>metaOptional := True\<rparr> else m);
                 m2 = (case map_of TYPE_DECORATORS name of
                         None \<Rightarrow> m1
                       | Some t \<Rightarrow> m1\<lparr>metaOverrideType := Some t\<rparr>)
             in if name = ''ApiProperty'' \<or> name = ''ApiPropertyOptional'' then
                  (let m3 = (if name = ''ApiPropertyOptional'' then m2\<lparr>metaOptional := True\<rparr> else m2)
                   in case getDecoratorObjectArg dec of
                        None \<Rightarrow> m3
                      | Some props \<Rightarrow> foldl apiPropertyOption m3 props)
                else m2))"

definition getPropMetaFromDecorators :: "node list \<Rightarrow> propMeta" where
  "getPropMetaFromDecorators decorators =
     foldl propDecorator
       \<lparr>metaOptional = False, metaExampleValue = None, metaOverrideType = None\<rparr> decorators"

definition classProps :: "classMember list \<Rightarrow> dtoProp list" where
  "classProps members =
     concat (map (\<lambda>member.
        case member of
          ClassProperty key val decorators opt typeAnnotation \<Rightarrow>
            (case getPropertyName key of
               None \<Rightarrow> []
             | Some name \<Rightarrow>
                 if name = [] then []
                 else
                   (let meta = getPropMetaFromDecorators decorators
                    in [\<lparr>propName = name, propOptional = (opt \<or> metaOptional meta),
                         propTypeNode = typeAnnotation, propExample = metaExampleValue meta,
                         propOverrideType = metaOverrideType meta\<rparr>]))
        | _ \<Rightarrow> []) members)"

definition collectDtoSchemasFromAst :: "classDeclaration list \<Rightarrow> dtoMap" where
  "collectDtoSchemasFromAst ast =
     foldl (\<lambda>dtoMap classNode.
        case classId classNode of
          None \<Rightarrow> dtoMap
        | Some className \<Rightarrow>
            if className = [] then dtoMap
            else
              (let props = classProps (classBody classNode)
               in if props \<noteq> [] then mapSet className \<lparr>dtoDefName = className, dtoProps = props\<rparr> dtoMap
                  else dtoMap))
       [] ast"

text \<open>
  \<open>imported\<close> holds the class declarations of the imported files that exist and parse,
  in import order; a file that does not parse contributes nothing. The first definition
  of a name wins.
\<close>

definition collectDtoSchemas :: "classDeclaration list \<Rightarrow> classDeclaration list list \<Rightarrow> dtoMap" where
  "collectDtoSchemas ast imported =
     foldl (\<lambda>dtoMap importedAst.
        foldl (\<lambda>dtoMap (name, dto). if map_of dtoMap name = None then mapSet name dto dtoMap else dtoMap)
          dtoMap (collectDtoSchemasFromAst importedAst))
       (collectDtoSchemasFromAst ast) imported"

record paramFacts =
  factParams :: "(string \<times> bool) list"
  factQuery :: "(string \<times> bool) list"
  factBody :: "(schema \<times> memo) option"

definition decoratorTarget :: "param \<Rightarrow> param" where
  "decoratorTarget paramNode =
     (if paramDecorators paramNode \<noteq> None then paramNode
      else case paramLeft paramNode of None \<Rightarrow> paramNode | Some left \<Rightarrow> left)"

definition dtoQueryParams :: "string \<Rightarrow> dtoMap \<Rightarrow> (string \<times> bool) list" where
  "dtoQueryParams dtoName dtoSchemas =
     (case buildSchemaForDto dtoName dtoSchemas 0 [] of
        (SDtoRef n, memo) \<Rightarrow>
          (case map_of memo n of
             None \<Rightarrow> []
           | Some schema \<Rightarrow>
               map (\<lambda>(key, val).
                      (key, case objRequired schema of None \<Rightarrow> False | Some rq \<Rightarrow> key \<in> set rq))
                 (objProperties schema))
      | _ \<Rightarrow> [])"

definition paramDecorator :: "param \<Rightarrow> dtoMap \<Rightarrow> paramFacts \<Rightarrow> node \<Rightarrow> paramFacts" where
  "paramDecorator target dtoSchemas facts dec =
     (case getDecoratorName dec of
        None \<Rightarrow> facts
      | Some name \<Rightarrow>
          if name = [] then facts
          else
            (let arg = getStringArg dec;
                 f1 = (if name = ''Param'' \<and> arg \<noteq> [] then facts\<lparr>factParams := factParams facts @ [(arg, True)]\<rparr>
                       else facts);
                 f2 = (if name = ''Query'' then
                         (if arg \<noteq> [] then f1\<lparr>factQuery := factQuery f1 @ [(arg, False)]\<rparr>
                          else case paramTypeAnnotation target of
                                 Some (TSTypeReference (TypeIdentifier dtoName) tps) \<Rightarrow>
                                   f1\<lparr>factQuery := factQuery f1 @ dtoQueryParams dtoName dtoSchemas\<rparr>
                               | _ \<Rightarrow> f1)
                       else f1)
             in if name = ''Body''
                then f2\<lparr>factBody := Some (schemaFromTypeNode (paramTypeAnnotation target) dtoSchemas 0 [] None)\<rparr>
                else f2))"

definition getParamDecorators :: "param \<Rightarrow> dtoMap \<Rightarrow> paramFacts" where
  "getParamDecorators paramNode dtoSchemas =
     (let target = decoratorTarget paramNode;
          decorators = (case paramDecorators target of None \<Rightarrow> [] | Some ds \<Rightarrow> ds)
      in foldl (paramDecorator target dtoSchemas)
           \<lparr>factParams = [], factQuery = [], factBody = None\<rparr> decorators)"

record nestEndpoint =
  neMethod :: string
  nePath :: string
  neDescription :: string
  neTags :: "string list option"
  nePathParams :: "(string \<times> bool) list option"
  neQuery :: "(string \<times> bool) list option"
  neBody :: "(schema \<times> memo) option"
  neFilePath :: string
  neKey :: string

text \<open>
  A method whose last HTTP decorator is a member of \<open>Object.prototype\<close> reaches
  \<open>toKey\<close> with a method that has no \<open>toUpperCase\<close>: the extractor throws a
  \<open>TypeError\<close>, which ends the traversal.
\<close>

datatype verbLookup = Verb string | PrototypeMember | NoVerb

definition lookupHttpDecorator :: "string option \<Rightarrow> verbLookup" where
  "lookupHttpDecorator name =
     (case name of
        None \<Rightarrow> NoVerb
      | Some n \<Rightarrow>
          (case map_of HTTP_DECORATORS n of
             Some verb \<Rightarrow> Verb verb
           | None \<Rightarrow> if n \<in> set objectPrototypeKeys then PrototypeMember else NoVerb))"

record methodFacts =
  httpMethod :: verbLookup
  methodPath :: string
  methodDescription :: "string option"

definition methodDecorator :: "methodFacts \<Rightarrow> node \<Rightarrow> methodFacts" where
  "methodDecorator facts dec =
     (let name = getDecoratorName dec;
          f1 = (case lookupHttpDecorator name of
                  NoVerb \<Rightarrow> facts
                | found \<Rightarrow> facts\<lparr>httpMethod := found, methodPath := getStringArg dec\<rparr>)
      in if name = Some ''ApiOperation''
         then (if truthy (getSummaryFromDecorator dec)
               then f1\<lparr>methodDescription := getSummaryFromDecorator dec\<rparr> else f1)
         else f1)"

definition noneIfEmpty :: "'a list \<Rightarrow> 'a list option" where
  "noneIfEmpty xs = (if xs \<noteq> [] then Some xs else None)"

definition memberEndpoint ::
    "string \<Rightarrow> dtoMap \<Rightarrow> string \<Rightarrow> string list \<Rightarrow> classMember \<Rightarrow> jsError + nestEndpoint list" where
  "memberEndpoint filePath dtoSchemas basePath tags memberNode =
     (case (case memberNode of
              ClassMethod decorators params \<Rightarrow> Some (decorators, params)
            | ClassProperty key (FunctionValue params) decorators opt ta \<Rightarrow> Some (decorators, params)
            | _ \<Rightarrow> None) of
        None \<Rightarrow> Inr []
      | Some (methodDecorators, paramList) \<Rightarrow>
          (let facts = foldl methodDecorator
                 \<lparr>httpMethod = NoVerb, methodPath = '''', methodDescription = None\<rparr> methodDecorators
           in case httpMethod facts of
                NoVerb \<Rightarrow> Inr []
              | PrototypeMember \<Rightarrow> Inl TypeError
              | Verb verb \<Rightarrow>
                  (let fullPath = normalizePath (joinPaths basePath (methodPath facts));
                       found = map (\<lambda>paramNode. getParamDecorators paramNode dtoSchemas) paramList;
                       params = concat (map factParams found);
                       query = concat (map factQuery found);
                       bodySchema = foldl (\<lambda>body res. if factBody res \<noteq> None then factBody res else body)
                                      None found
                   in Inr [\<lparr>neMethod = verb, nePath = fullPath,
                            neDescription = (if truthy (methodDescription facts)
                                             then the (methodDescription facts)
                                             else verb @ '' '' @ fullPath),
                            neTags = noneIfEmpty tags,
                            nePathParams = noneIfEmpty params,
                            neQuery = noneIfEmpty query,
                            neBody = bodySchema,
                            neFilePath = filePath,
                            neKey = toKey verb fullPath\<rparr>])))"

definition classEndpoints :: "string \<Rightarrow> dtoMap \<Rightarrow> classDeclaration \<Rightarrow> jsError + nestEndpoint list" where
  "classEndpoints filePath dtoSchemas classNode =
     (let basePath = foldl (\<lambda>basePath dec.
                        if getDecoratorName dec = Some ''Controller'' then getStringArg dec else basePath)
                      '''' (classDecorators classNode);
          tags = concat (map (\<lambda>dec. if getDecoratorName dec = Some ''ApiTags''
                                       then getTagsFromDecorator dec else [])
                          (classDecorators classNode))
      in collectEndpoints (map (memberEndpoint filePath dtoSchemas basePath tags) (classBody classNode)))"

definition extractNestJsEndpoints ::
    "string \<Rightarrow> classDeclaration list \<Rightarrow> classDeclaration list list \<Rightarrow> jsError + nestEndpoint list" where
  "extractNestJsEndpoints filePath ast imported =
     (let dtoSchemas = collectDtoSchemas ast imported
      in collectEndpoints (map (classEndpoints filePath dtoSchemas) ast))"

subsection \<open>The users controller\<close>

text \<open>
  \<^verbatim>\<open>class SearchDto { name: string; age?: number }\<close> and
  \<^verbatim>\<open>@Controller('users') class UsersController { @Get(':id') find(@Query() q: SearchDto) {} }\<close>.
\<close>

definition searchDto :: classDeclaration where
  "searchDto =
     \<lparr>classId = Some ''SearchDto'', classDecorators = [],
      classBody = [ClassProperty (Identifier ''name'') NoValue [] False (Some TSStringKeyword),
                   ClassProperty (Identifier ''age'') NoValue [] True (Some TSNumberKeyword)]\<rparr>"

definition usersController :: classDeclaration where
  "usersController =
     \<lparr>classId = Some ''UsersController'',
      classDecorators = [CallExpression (Identifier ''Controller'') [StringLiteral ''users'']],
      classBody =
        [ClassMethod [CallExpression (Identifier ''Get'') [StringLiteral '':id'']]
           [Param (Some [CallExpression (Identifier ''Query'') []])
              (Some (TSTypeReference (TypeIdentifier ''SearchDto'') None)) None]]\<rparr>"

definition usersEndpoint :: nestEndpoint where
  "usersEndpoint =
     \<lparr>neMethod = ''GET'', nePath = ''/users/:id'', neDescription = ''GET /users/:id'',
      neTags = None, nePathParams = None,
      neQuery = Some [(''name'', True), (''age'', False)], neBody = None,
      neFilePath = ''/app/users.controller.ts'', neKey = ''GET /users/:id''\<rparr>"

text \<open>
  C9. The controller yields exactly one endpoint: \<open>GET /users/:id\<close> with the query
  parameters \<open>name\<close> (required) and \<open>age\<close> (optional), in that order. This holds
  with the DTO declared before or after the controller, or in an imported file.
\<close>

theorem users_controller_scenario:
  "extractNestJsEndpoints ''/app/users.controller.ts'' [searchDto, usersController] [] = Inr [usersEndpoint]
   \<and> extractNestJsEndpoints ''/app/users.controller.ts'' [usersController, searchDto] [] = Inr [usersEndpoint]
   \<and> extractNestJsEndpoints ''/app/users.controller.ts'' [usersController] [[searchDto]] = Inr [usersEndpoint]"
  by code_simp

section \<open>Combined mode (extractEndpoints, extractAllEndpoints)\<close>

text \<open>
  The three extractors are parameters: the Hono extractor may not return (\<open>None\<close>),
  the per-file extractors may throw. \<open>key\<close> reads an endpoint's key.
  \<open>for (const e of [...nest, ...exp]) map.set(e.key, e)\<close> followed by
  \<open>Array.from(map.values())\<close> is \<open>mergeByKey\<close>.
\<close>

definition mergeByKey :: "('e \<Rightarrow> string) \<Rightarrow> 'e list \<Rightarrow> 'e list" where
  "mergeByKey key es = map snd (foldl (\<lambda>m e. mapSet (key e) e m) [] es)"

definition extractEndpoints ::
    "('e \<Rightarrow> string) \<Rightarrow> (string \<Rightarrow> jsError + 'e list) \<Rightarrow> (string \<Rightarrow> jsError + 'e list)
      \<Rightarrow> string \<Rightarrow> string \<Rightarrow> jsError + 'e list" where
  "extractEndpoints key extractNest extractExpress filePath framework =
     (if framework = ''nestjs'' then extractNest filePath
      else if framework = ''express'' then extractExpress filePath
      else if framework = ''hono'' then Inr []
      else case extractNest filePath of
             Inl err \<Rightarrow> Inl err
           | Inr nest \<Rightarrow>
               (case extractExpress filePath of
                  Inl err \<Rightarrow> Inl err
                | Inr express \<Rightarrow> Inr (mergeByKey key (nest @ express))))"

definition extractAllEndpoints ::
    "('e \<Rightarrow> string) \<Rightarrow> (string list \<Rightarrow> 'e list option) \<Rightarrow> (string \<Rightarrow> jsError + 'e list)
      \<Rightarrow> (string \<Rightarrow> jsError + 'e list) \<Rightarrow> string list \<Rightarrow> string \<Rightarrow> (jsError + 'e list) option" where
  "extractAllEndpoints key extractHono extractNest extractExpress files framework =
     (if framework = ''hono'' then map_option Inr (extractHono files)
      else case (if framework = ''auto'' then extractHono files else Some []) of
             None \<Rightarrow> None
           | Some hono \<Rightarrow>
               if hono \<noteq> [] then Some (Inr hono)
               else Some (collectEndpoints
                      (map (\<lambda>file. extractEndpoints key extractNest extractExpress file framework) files)))"

fun lastWithKey :: "('e \<Rightarrow> string) \<Rightarrow> 'e list \<Rightarrow> string \<Rightarrow> 'e option" where
  "lastWithKey key [] k = None"
| "lastWithKey key (e # es) k =
     (case lastWithKey key es k of
        Some e' \<Rightarrow> Some e'
      | None \<Rightarrow> if key e = k then Some e else None)"

lemma lastWithKey_append:
  "lastWithKey key (ns @ xs) k =
     (case lastWithKey key xs k of Some e \<Rightarrow> Some e | None \<Rightarrow> lastWithKey key ns k)"
  by (induction ns) (auto split: option.splits)

lemma lastWithKey_Some: "lastWithKey key es k = Some e \<Longrightarrow> key e = k \<and> e \<in> set es"
  by (induction es) (auto split: option.splits if_splits)

lemma merge_lookup:
  "map_of (foldl (\<lambda>m e. mapSet (key e) e m) m0 es) k =
     (case lastWithKey key es k of Some e \<Rightarrow> Some e | None \<Rightarrow> map_of m0 k)"
proof (induction es arbitrary: m0)
  case Nil
  then show ?case by simp
next
  case (Cons e es)
  show ?case
    by (simp add: Cons.IH map_of_mapSet split: option.splits)
qed

lemma merge_keys_distinct:
  "distinct (map fst m0) \<Longrightarrow> distinct (map fst (foldl (\<lambda>m e. mapSet (key e) e m) m0 es))"
  by (induction es arbitrary: m0) (simp_all add: mapSet_keys)

lemma merge_keyed:
  "\<forall>kv\<in>set m0. key (snd kv) = fst kv \<Longrightarrow>
   \<forall>kv\<in>set (foldl (\<lambda>m e. mapSet (key e) e m) m0 es). key (snd kv) = fst kv"
proof (induction es arbitrary: m0)
  case Nil
  then show ?case by simp
next
  case (Cons e es)
  have "\<forall>kv\<in>set (mapSet (key e) e m0). key (snd kv) = fst kv"
    using Cons.prems mapSet_subset [of "key e" e m0] by auto
  then show ?case using Cons.IH by simp
qed

lemma mergeByKey_distinct: "distinct (map key (mergeByKey key es))"
proof -
  let ?m = "foldl (\<lambda>m e. mapSet (key e) e m) [] es"
  have eq: "map key (map snd ?m) = map fst ?m"
    using merge_keyed [of "[]" key es] by simp
  have d: "distinct (map fst ?m)" using merge_keys_distinct [of "[]" key es] by simp
  show ?thesis unfolding mergeByKey_def eq by (rule d)
qed

lemma mergeByKey_member:
  "(e \<in> set (mergeByKey key es)) = (lastWithKey key es (key e) = Some e)"
proof -
  let ?m = "foldl (\<lambda>m e. mapSet (key e) e m) [] es"
  have d: "distinct (map fst ?m)" using merge_keys_distinct [of "[]" key es] by simp
  have k: "\<forall>kv\<in>set ?m. key (snd kv) = fst kv" using merge_keyed [of "[]" key es] by simp
  have "(e \<in> set (mergeByKey key es)) = ((key e, e) \<in> set ?m)"
    using k by (force simp: mergeByKey_def)
  also have "\<dots> = (map_of ?m (key e) = Some e)"
    using d by simp
  also have "\<dots> = (lastWithKey key es (key e) = Some e)"
    by (simp add: merge_lookup split: option.splits)
  finally show ?thesis .
qed

lemma collectEndpoints_Inr:
  "collectEndpoints (map (\<lambda>f. Inr (g f)) files) = Inr (concat (map g files))"
  by (induction files) simp_all

text \<open>
  C5, as amended. In auto mode the Hono extractor runs first over all files, and a
  non-empty result of it is returned alone. Otherwise, for each file in order, the
  NestJS and the Express extractor run and their results for that file are merged by
  key: the merged list has one endpoint per key, and the endpoint kept for a key is the
  last Express endpoint with that key or, when Express has none, the last NestJS one. The
  lists of the files are concatenated, without merging across files.
\<close>

theorem auto_mode_merge:
  "(extractHono files = Some hono \<longrightarrow> hono \<noteq> [] \<longrightarrow>
      extractAllEndpoints key extractHono extractNest extractExpress files ''auto'' = Some (Inr hono))
   \<and> (extractHono files = Some [] \<longrightarrow>
        (\<forall>file\<in>set files. extractNest file = Inr (nest file) \<and> extractExpress file = Inr (express file)) \<longrightarrow>
      extractAllEndpoints key extractHono extractNest extractExpress files ''auto'' =
        Some (Inr (concat (map (\<lambda>file. mergeByKey key (nest file @ express file)) files))))
   \<and> distinct (map key (mergeByKey key (ns @ xs)))
   \<and> (e \<in> set (mergeByKey key (ns @ xs))) =
       (lastWithKey key xs (key e) = Some e \<or>
        lastWithKey key xs (key e) = None \<and> lastWithKey key ns (key e) = Some e)"
proof -
  have 1: "extractAllEndpoints key extractHono extractNest extractExpress files ''auto'' = Some (Inr hono)"
    if "extractHono files = Some hono" "hono \<noteq> []"
    using that by (simp add: extractAllEndpoints_def)
  have 2: "extractAllEndpoints key extractHono extractNest extractExpress files ''auto'' =
        Some (Inr (concat (map (\<lambda>file. mergeByKey key (nest file @ express file)) files)))"
    if h: "extractHono files = Some []"
      and a: "\<forall>file\<in>set files. extractNest file = Inr (nest file) \<and> extractExpress file = Inr (express file)"
  proof -
    have "map (\<lambda>file. extractEndpoints key extractNest extractExpress file ''auto'') files =
          map (\<lambda>file. Inr (mergeByKey key (nest file @ express file))) files"
      using a by (simp add: extractEndpoints_def)
    then have "collectEndpoints (map (\<lambda>file. extractEndpoints key extractNest extractExpress file ''auto'') files) =
          Inr (concat (map (\<lambda>file. mergeByKey key (nest file @ express file)) files))"
      by (simp only: collectEndpoints_Inr)
    then show ?thesis using h by (simp add: extractAllEndpoints_def)
  qed
  have 3: "(e \<in> set (mergeByKey key (ns @ xs))) =
       (lastWithKey key xs (key e) = Some e \<or>
        lastWithKey key xs (key e) = None \<and> lastWithKey key ns (key e) = Some e)"
    unfolding mergeByKey_member lastWithKey_append by (auto split: option.splits)
  show ?thesis using 1 2 3 mergeByKey_distinct by blast
qed

definition nestOne :: "string \<Rightarrow> jsError + (string \<times> string) list" where
  "nestOne file = Inr (if file = ''/app/a.ts'' then [(''GET /x'', ''nest a''), (''GET /y'', ''nest a'')] else [])"

definition expressOne :: "string \<Rightarrow> jsError + (string \<times> string) list" where
  "expressOne file =
     Inr (if file = ''/app/a.ts'' then [(''GET /y'', ''express a'')]
          else if file = ''/app/b.ts'' then [(''GET /x'', ''express b'')] else [])"

theorem auto_mode_merge_witness:
  "extractAllEndpoints fst (\<lambda>files. Some []) nestOne expressOne [''/app/a.ts'', ''/app/b.ts''] ''auto'' =
     Some (Inr [(''GET /x'', ''nest a''), (''GET /y'', ''express a''), (''GET /x'', ''express b'')])
   \<and> extractAllEndpoints fst (\<lambda>files. Some [(''GET /x'', ''hono'')]) nestOne expressOne
        [''/app/a.ts'', ''/app/b.ts''] ''auto'' = Some (Inr [(''GET /x'', ''hono'')])"
proof -
  have a: "\<forall>file\<in>set [''/app/a.ts'', ''/app/b.ts''].
      nestOne file = Inr (if file = ''/app/a.ts'' then [(''GET /x'', ''nest a''), (''GET /y'', ''nest a'')] else []) \<and>
      expressOne file = Inr (if file = ''/app/a.ts'' then [(''GET /y'', ''express a'')]
          else if file = ''/app/b.ts'' then [(''GET /x'', ''express b'')] else [])"
    by (simp add: nestOne_def expressOne_def)
  have b: "concat (map (\<lambda>file. mergeByKey fst
        ((if file = ''/app/a.ts'' then [(''GET /x'', ''nest a''), (''GET /y'', ''nest a'')] else []) @
         (if file = ''/app/a.ts'' then [(''GET /y'', ''express a'')]
          else if file = ''/app/b.ts'' then [(''GET /x'', ''express b'')] else [])))
        [''/app/a.ts'', ''/app/b.ts'']) =
      [(''GET /x'', ''nest a''), (''GET /y'', ''express a''), (''GET /x'', ''express b'')]"
    by code_simp
  have c: "[(''GET /x'', ''hono'')] \<noteq> ([] :: (string \<times> string) list)" by simp
  from auto_mode_merge [of "\<lambda>files. Some []" "[''/app/a.ts'', ''/app/b.ts'']" "[]" fst nestOne expressOne
      "\<lambda>file. if file = ''/app/a.ts'' then [(''GET /x'', ''nest a''), (''GET /y'', ''nest a'')] else []"
      "\<lambda>file. if file = ''/app/a.ts'' then [(''GET /y'', ''express a'')]
          else if file = ''/app/b.ts'' then [(''GET /x'', ''express b'')] else []"]
    auto_mode_merge [of "\<lambda>files. Some [(''GET /x'', ''hono'')]" "[''/app/a.ts'', ''/app/b.ts'']"
       "[(''GET /x'', ''hono'')]" fst nestOne expressOne]
    a b c
  show ?thesis by simp
qed

text \<open>
  Two files: the NestJS extractor finds \<open>GET /x\<close> in the first, the Express extractor
  finds \<open>GET /x\<close> in the second. Both endpoints are in the result: the later
  extractor's endpoint does not overwrite the earlier one's.
\<close>

theorem auto_mode_keeps_duplicate_keys:
  "extractAllEndpoints fst (\<lambda>files. Some []) nestOne expressOne [''/app/a.ts'', ''/app/b.ts''] ''auto'' =
     Some (Inr [(''GET /x'', ''nest a''), (''GET /y'', ''express a''), (''GET /x'', ''express b'')])
   \<and> \<not> distinct (map fst [(''GET /x'', ''nest a''), (''GET /y'', ''express a''), (''GET /x'', ''express b'')])"
  by code_simp

end
